theory Spec2Isabelle
  imports Complex_Main
begin

section \<open>Credit ledger and admission control of the crawling engine\<close>

text \<open>
  A shallow embedding of \<^verbatim>\<open>CreditService\<close> (src/services/credits.js, held in
  src/src/services/crawler.js after the first separator) and of \<^verbatim>\<open>RateLimiter\<close>
  (src/services/rateLimiter.js, held in src/unnamed/part_009), together with the Redis
  commands the two classes issue through the \<^verbatim>\<open>@upstash/redis\<close> client.

  The store is explicit state: every operation takes the store and returns the new one.
  An operation that throws returns its error as the left summand. The readings of the
  clock (\<^verbatim>\<open>Date.now()\<close>) and of \<^verbatim>\<open>Math.random()\<close> are arguments. Each command
  has the meaning of the Redis command it names, as the client passes it on: where the
  client itself acts on the arguments of a call or on the reply (it reads the fields of a
  hash back through its deserialiser, and it throws on the arguments the code hands to
  \<^verbatim>\<open>zadd\<close>), that is part of the model. The stand-in object that src/utils/redis.js
  returns when no store is configured, whose commands store nothing, is not modelled.
\<close>

subsection \<open>Numbers of the cost calculation\<close>

text \<open>
  A JavaScript number is an IEEE 754 double: 53 significant bits, and every arithmetic
  operation returns the double nearest to the exact result, the one with the even
  significand when two are equally near. On integer arguments every exact value that the
  two cost functions meet is a multiple of one half, so a value is held as the integer
  that is twice the value. A double of magnitude from \<open>2^(m - 1)\<close> up to \<open>2^m\<close> is a
  multiple of \<open>2^(m - 53)\<close>; twice the value then has \<open>m + 1\<close> binary digits and is a
  multiple of \<open>2^(m - 52)\<close>. \<open>round_to_double\<close> takes twice an exact value to twice the
  nearest double. The range of the exponent is not modelled (no value here comes near the
  largest double, about \<open>1.8 * 10^308\<close>).
\<close>

function bit_length :: "nat \<Rightarrow> nat" where
  "bit_length n = (if n = 0 then 0 else Suc (bit_length (n div 2)))"
  by pat_completeness auto
termination
  by (relation "measure (\<lambda>n. n)") auto

declare bit_length.simps [simp del]

definition round_to_double :: "int \<Rightarrow> int" where
  "round_to_double twice =
     (let bits = bit_length (nat \<bar>twice\<bar>)
      in if bits \<le> 53 then twice
         else (let unit = 2 ^ (bits - 53);
                   q = twice div unit;
                   r = twice mod unit
               in unit * (if 2 * r < unit then q
                          else if unit < 2 * r then q + 1
                          else if even q then q else q + 1)))"

subsection \<open>Cost calculation\<close>

text \<open>
  \<^verbatim>\<open>
  calculateCrawlCost(pages, depth = 1, customChecks = 0) {
    let cost = pages;
    if (depth > 1) { cost *= (1 + (depth - 1) * 0.5); }
    cost += customChecks * 2;
    return Math.ceil(cost);
  }
  calculateRecheckCost(issueCount) { return Math.ceil(issueCount * 0.5); }
  \<close>
  The arguments are the integers that the numbers passed hold; every local below is twice
  the double the code computes. \<open>levels\<close> is \<^verbatim>\<open>depth - 1\<close>, \<open>factor\<close> is
  \<^verbatim>\<open>1 + (depth - 1) * 0.5\<close>, \<open>checks\<close> is \<^verbatim>\<open>customChecks * 2\<close>. Multiplying a double
  by \<open>0.5\<close> is exact, so it is the division by two of an even number (lemma
  \<open>round_to_double_even\<close>) and \<^verbatim>\<open>issueCount * 0.5\<close> is held as \<open>issueCount\<close>.
  \<^verbatim>\<open>Math.ceil\<close> of the half of \<open>c\<close> is \<open>(c + 1) div 2\<close>.
\<close>

definition calculateCrawlCost :: "int \<Rightarrow> int \<Rightarrow> int \<Rightarrow> int" where
  "calculateCrawlCost pages depth customChecks =
     (let cost0 = 2 * pages;
          cost1 = (if depth > 1
                   then (let levels = round_to_double (2 * depth - 2);
                             factor = round_to_double (2 + levels div 2)
                         in round_to_double (pages * factor))
                   else cost0);
          checks = round_to_double (2 * (customChecks * 2));
          cost2 = round_to_double (cost1 + checks)
      in (cost2 + 1) div 2)"

definition calculateRecheckCost :: "int \<Rightarrow> int" where
  "calculateRecheckCost issueCount = (let cost = issueCount in (cost + 1) div 2)"

text \<open>
  The formulas as the specification words them (section 4.2), in exact arithmetic:
  \<open>crawl_cost_exact\<close> is the value under the ceiling.
\<close>

definition crawl_cost_exact :: "int \<Rightarrow> int \<Rightarrow> int \<Rightarrow> rat" where
  "crawl_cost_exact pages depth customChecks =
     of_int pages * (1 + max 0 (of_int depth - 1) * (1 / 2)) + of_int customChecks * 2"

definition crawl_cost_formula :: "int \<Rightarrow> int \<Rightarrow> int \<Rightarrow> int" where
  "crawl_cost_formula pages depth customChecks = \<lceil>crawl_cost_exact pages depth customChecks\<rceil>"

definition recheck_cost_formula :: "int \<Rightarrow> int" where
  "recheck_cost_formula issueCount = \<lceil>(of_int issueCount :: rat) * (1 / 2)\<rceil>"

subsection \<open>Rendering numbers\<close>

text \<open>
  \<^verbatim>\<open>Date.now().toString()\<close> and the \<^verbatim>\<open>${now}\<close> of a template string render an
  integer in decimal, with a leading minus sign when it is negative.
\<close>

definition digit_char :: "nat \<Rightarrow> char" where
  "digit_char d = ''0123456789'' ! d"

function digits :: "nat \<Rightarrow> string" where
  "digits n = (if n < 10 then [digit_char n] else digits (n div 10) @ [digit_char (n mod 10)])"
  by pat_completeness auto
termination
  by (relation "measure (\<lambda>n. n)") auto

declare digits.simps [simp del]

definition toString :: "int \<Rightarrow> string" where
  "toString n = (if n < 0 then CHR ''-'' # digits (nat (- n)) else digits (nat n))"

subsection \<open>The credit keys of the store\<close>

text \<open>
  \<^verbatim>\<open>CreditService\<close> uses four families of Redis keys, whose prefixes keep them
  apart: \<^verbatim>\<open>credits:${userId}\<close> (an integer), \<^verbatim>\<open>credit_tx:${txId}\<close> (a hash with the
  fields of one transaction), \<^verbatim>\<open>credit_history:${userId}\<close> (a list of transaction ids)
  and \<^verbatim>\<open>credit_reservation:${operationId}\<close> (a hash with the fields of one
  reservation). Each family is one component of the state. The field
  \<^verbatim>\<open>timestamp: new Date().toISOString()\<close> is kept as the clock reading in
  milliseconds.
\<close>

record transaction =
  tx_userId :: string
  tx_amount :: int
  tx_type :: string
  tx_reason :: string
  tx_timestamp :: int

record reservation =
  res_userId :: string
  res_amount :: int
  res_timestamp :: int

record ledger =
  credits :: "string \<rightharpoonup> int"
  credit_tx :: "string \<rightharpoonup> transaction"
  credit_history :: "string \<Rightarrow> string list"
  credit_reservation :: "string \<rightharpoonup> reservation"

definition empty_ledger :: ledger where
  "empty_ledger =
     \<lparr>credits = Map.empty, credit_tx = Map.empty, credit_history = (\<lambda>_. []),
      credit_reservation = Map.empty\<rparr>"

datatype scope = UserScope | DomainScope

text \<open>
  The code throws \<^verbatim>\<open>Error\<close> objects told apart by their message:
  \<^verbatim>\<open>'Insufficient credits'\<close>, \<^verbatim>\<open>'Reservation not found'\<close>,
  \<^verbatim>\<open>'User rate limit exceeded'\<close>, \<^verbatim>\<open>'Domain rate limit exceeded'\<close> and
  \<^verbatim>\<open>'Too many concurrent requests for this domain'\<close>. \<open>DuplicateOperation\<close> is the
  specification's name for an error that no statement of the code throws.
  \<open>ClientTypeError\<close> is the \<^verbatim>\<open>TypeError\<close> that the client throws on arguments it
  cannot take.
\<close>

datatype error =
    InsufficientCredits
  | DuplicateOperation
  | ReservationNotFound
  | RateLimitExceeded scope
  | ConcurrencyLimitExceeded string
  | ClientTypeError

subsection \<open>Redis commands on integers, hashes and lists\<close>

text \<open>
  \<^verbatim>\<open>INCRBY\<close> and \<^verbatim>\<open>DECRBY\<close> read an absent key as \<open>0\<close> and accept a negative
  argument. The 64-bit range of a Redis integer is not modelled.
\<close>

definition incrby :: "(string \<rightharpoonup> int) \<Rightarrow> string \<Rightarrow> int \<Rightarrow> (string \<rightharpoonup> int)" where
  "incrby m key n = m(key \<mapsto> (case m key of None \<Rightarrow> 0 | Some v \<Rightarrow> v) + n)"

definition decrby :: "(string \<rightharpoonup> int) \<Rightarrow> string \<Rightarrow> int \<Rightarrow> (string \<rightharpoonup> int)" where
  "decrby m key n = m(key \<mapsto> (case m key of None \<Rightarrow> 0 | Some v \<Rightarrow> v) - n)"

text \<open>
  \<^verbatim>\<open>HSET key {all fields}\<close> writes every field of the hash; the client sends a string
  as it is and a number in decimal. \<^verbatim>\<open>DEL\<close> removes the key.
\<close>

definition hset :: "(string \<rightharpoonup> 'v) \<Rightarrow> string \<Rightarrow> 'v \<Rightarrow> (string \<rightharpoonup> 'v)" where
  "hset m key hash = m(key \<mapsto> hash)"

text \<open>
  \<^verbatim>\<open>hgetall\<close> of the client yields \<^verbatim>\<open>null\<close> for a key that does not exist. For a
  key that exists it does not hand back the stored fields: it passes every field through
  its deserialiser, which keeps a string that is not JSON text and replaces one that is
  by the value \<^verbatim>\<open>JSON.parse\<close> makes of it. The stored string \<^verbatim>\<open>'1e3'\<close> comes back
  as the number 1000, which a template string renders as \<^verbatim>\<open>1000\<close>. The client is not
  part of the repository, so the deserialiser is an argument of the model: \<open>readBack\<close>
  takes a stored string to the text that \<^verbatim>\<open>${...}\<close> renders for the value read back.
  A field that holds a number is stored in decimal and read back as the same number (the
  integers beyond \<open>2^53\<close> are not modelled). \<open>hgetall\<close> takes the deserialiser of the
  whole hash.
\<close>

definition hgetall :: "('v \<Rightarrow> 'v) \<Rightarrow> (string \<rightharpoonup> 'v) \<Rightarrow> string \<Rightarrow> 'v option" where
  "hgetall deserialize m key = map_option deserialize (m key)"

definition read_transaction :: "(string \<Rightarrow> string) \<Rightarrow> transaction \<Rightarrow> transaction" where
  "read_transaction readBack tx =
     tx\<lparr>tx_userId := readBack (tx_userId tx), tx_type := readBack (tx_type tx),
        tx_reason := readBack (tx_reason tx)\<rparr>"

definition read_reservation :: "(string \<Rightarrow> string) \<Rightarrow> reservation \<Rightarrow> reservation" where
  "read_reservation readBack reservation =
     reservation\<lparr>res_userId := readBack (res_userId reservation)\<rparr>"

text \<open>
  The deserialiser of the sample runs below. It agrees with the client on every string
  that these runs store in a hash: \<^verbatim>\<open>'1e3'\<close> is JSON text for the number 1000; the
  other user ids (\<^verbatim>\<open>'user'\<close>), the reasons (\<^verbatim>\<open>'purchase'\<close>, \<^verbatim>\<open>'crawl'\<close>,
  \<^verbatim>\<open>'final'\<close>, \<^verbatim>\<open>'first'\<close>, \<^verbatim>\<open>'second'\<close>, \<^verbatim>\<open>'third'\<close>) and the types
  (\<^verbatim>\<open>'add'\<close>, \<^verbatim>\<open>'deduct'\<close>) are not JSON text and come back as they are.
\<close>

definition sample_readBack :: "string \<Rightarrow> string" where
  "sample_readBack field = (if field = ''1e3'' then ''1000'' else field)"

definition del :: "(string \<rightharpoonup> 'v) \<Rightarrow> string \<Rightarrow> (string \<rightharpoonup> 'v)" where
  "del m key = m(key := None)"

definition lpush :: "(string \<Rightarrow> string list) \<Rightarrow> string \<Rightarrow> string \<Rightarrow> (string \<Rightarrow> string list)" where
  "lpush h key v = h(key := v # h key)"

text \<open>
  \<^verbatim>\<open>LRANGE key start stop\<close>: both ends are inclusive, a negative index counts from the
  end of the list (\<open>-1\<close> is the last element), and an end beyond the list is cut to it.
  The elements of the history lists are transaction ids, decimal renderings of a clock
  reading: the client reads such an element back as the number, which a template string
  renders as the same text.
\<close>

definition lrange :: "'a list \<Rightarrow> int \<Rightarrow> int \<Rightarrow> 'a list" where
  "lrange xs start stop =
     (let n = int (length xs);
          a = (if start < 0 then max 0 (n + start) else start);
          b = (if stop < 0 then n + stop else min stop (n - 1))
      in if a > b then [] else take (nat (b - a + 1)) (drop (nat a) xs))"

subsection \<open>CreditService\<close>

text \<open>
  \<^verbatim>\<open>
  async getBalance(userId) {
    const balance = await this.redis.get(`credits:${userId}`);
    return parseInt(balance) || 0;
  }
  \<close>
  The key holds the decimal rendering of an integer, which the client reads back as that
  integer; a key that does not exist reads as \<^verbatim>\<open>null\<close>, which
  \<^verbatim>\<open>parseInt(balance) || 0\<close> takes to \<open>0\<close>.
\<close>

definition getBalance :: "ledger \<Rightarrow> string \<Rightarrow> int" where
  "getBalance s userId = (case credits s userId of None \<Rightarrow> 0 | Some balance \<Rightarrow> balance)"

text \<open>
  \<^verbatim>\<open>addCredits(userId, amount, reason)\<close>: one pipeline of \<^verbatim>\<open>incrby\<close>, \<^verbatim>\<open>hset\<close>
  and \<^verbatim>\<open>lpush\<close>, with \<^verbatim>\<open>txId = Date.now().toString()\<close>. The clock reading is the
  argument \<open>now\<close>. The pipeline is run as a whole, in the order it was built.
\<close>

definition addCredits :: "ledger \<Rightarrow> string \<Rightarrow> int \<Rightarrow> string \<Rightarrow> int \<Rightarrow> ledger \<times> string" where
  "addCredits s userId amount reason now =
     (let txId = toString now
      in (s\<lparr>credits := incrby (credits s) userId amount,
            credit_tx := hset (credit_tx s) txId
              \<lparr>tx_userId = userId, tx_amount = amount, tx_type = ''add'',
               tx_reason = reason, tx_timestamp = now\<rparr>,
            credit_history := lpush (credit_history s) userId txId\<rparr>, txId))"

text \<open>
  \<^verbatim>\<open>
  async deductCredits(userId, amount, reason) {
    const balance = await this.getBalance(userId);
    if (balance < amount) { throw new Error('Insufficient credits'); }
    const pipeline = this.redis.pipeline();
    pipeline.decrby(`credits:${userId}`, amount);
    const txId = Date.now().toString();
    pipeline.hset(`credit_tx:${txId}`, { userId, amount: -amount, type: 'deduct', ... });
    pipeline.lpush(`credit_history:${userId}`, txId);
    await pipeline.exec();
    return txId;
  }
  \<close>
  \<open>deduct_pipeline\<close> is the pipeline; \<open>deductCredits\<close> is the whole call when nothing
  else touches the store between its read and its pipeline.
\<close>

definition deduct_pipeline :: "ledger \<Rightarrow> string \<Rightarrow> int \<Rightarrow> string \<Rightarrow> int \<Rightarrow> ledger \<times> string" where
  "deduct_pipeline s userId amount reason now =
     (let txId = toString now
      in (s\<lparr>credits := decrby (credits s) userId amount,
            credit_tx := hset (credit_tx s) txId
              \<lparr>tx_userId = userId, tx_amount = - amount, tx_type = ''deduct'',
               tx_reason = reason, tx_timestamp = now\<rparr>,
            credit_history := lpush (credit_history s) userId txId\<rparr>, txId))"

definition deductCredits ::
  "ledger \<Rightarrow> string \<Rightarrow> int \<Rightarrow> string \<Rightarrow> int \<Rightarrow> error + ledger \<times> string" where
  "deductCredits s userId amount reason now =
     (let balance = getBalance s userId
      in if balance < amount then Inl InsufficientCredits
         else Inr (deduct_pipeline s userId amount reason now))"

text \<open>
  \<^verbatim>\<open>
  async getTransactionHistory(userId, limit = 10) {
    const txIds = await this.redis.lrange(`credit_history:${userId}`, 0, limit - 1);
    if (!txIds.length) return [];
    ... pipeline.hgetall(`credit_tx:${txId}`) for each txId ...
    return transactions.map((tx, i) => ({ id: txIds[i], ...tx }));
  }
  \<close>
  An entry of the result is the id together with the fields of its hash as the client
  reads them back (none when the hash does not exist).
\<close>

definition getTransactionHistory ::
  "(string \<Rightarrow> string) \<Rightarrow> ledger \<Rightarrow> string \<Rightarrow> int \<Rightarrow> (string \<times> transaction option) list" where
  "getTransactionHistory readBack s userId limit =
     (let txIds = lrange (credit_history s userId) 0 (limit - 1)
      in if txIds = [] then []
         else map (\<lambda>txId. (txId, hgetall (read_transaction readBack) (credit_tx s) txId)) txIds)"

text \<open>
  \<^verbatim>\<open>
  async reserveCredits(userId, amount, operationId) {
    const balance = await this.getBalance(userId);
    if (balance < amount) { throw new Error('Insufficient credits'); }
    const pipeline = this.redis.pipeline();
    pipeline.decrby(`credits:${userId}`, amount);
    pipeline.hset(`credit_reservation:${operationId}`, { userId, amount, timestamp: Date.now() });
    await pipeline.exec();
  }
  \<close>
\<close>

definition reserve_pipeline :: "ledger \<Rightarrow> string \<Rightarrow> int \<Rightarrow> string \<Rightarrow> int \<Rightarrow> ledger" where
  "reserve_pipeline s userId amount operationId now =
     s\<lparr>credits := decrby (credits s) userId amount,
       credit_reservation := hset (credit_reservation s) operationId
         \<lparr>res_userId = userId, res_amount = amount, res_timestamp = now\<rparr>\<rparr>"

definition reserveCredits :: "ledger \<Rightarrow> string \<Rightarrow> int \<Rightarrow> string \<Rightarrow> int \<Rightarrow> error + ledger" where
  "reserveCredits s userId amount operationId now =
     (let balance = getBalance s userId
      in if balance < amount then Inl InsufficientCredits
         else Inr (reserve_pipeline s userId amount operationId now))"

text \<open>
  \<^verbatim>\<open>
  async releaseReservation(operationId, success) {
    const reservation = await this.redis.hgetall(`credit_reservation:${operationId}`);
    if (!reservation) { throw new Error('Reservation not found'); }
    const pipeline = this.redis.pipeline();
    if (!success) { pipeline.incrby(`credits:${reservation.userId}`, reservation.amount); }
    pipeline.del(`credit_reservation:${operationId}`);
    await pipeline.exec();
  }
  \<close>
  \<open>reservation\<close> is the record as the client reads it back, so the key of the refund,
  \<^verbatim>\<open>credits:${reservation.userId}\<close>, is built from the user id read back and not from
  the one \<open>reserveCredits\<close> stored.
\<close>

definition release_pipeline :: "ledger \<Rightarrow> string \<Rightarrow> bool \<Rightarrow> reservation \<Rightarrow> ledger" where
  "release_pipeline s operationId success reservation =
     (let s1 = (if \<not> success
                then s\<lparr>credits := incrby (credits s) (res_userId reservation)
                                     (res_amount reservation)\<rparr>
                else s)
      in s1\<lparr>credit_reservation := del (credit_reservation s1) operationId\<rparr>)"

definition releaseReservation ::
  "(string \<Rightarrow> string) \<Rightarrow> ledger \<Rightarrow> string \<Rightarrow> bool \<Rightarrow> error + ledger" where
  "releaseReservation readBack s operationId success =
     (case hgetall (read_reservation readBack) (credit_reservation s) operationId of
        None \<Rightarrow> Inl ReservationNotFound
      | Some reservation \<Rightarrow> Inr (release_pipeline s operationId success reservation))"

subsection \<open>Sequences of ledger calls\<close>

text \<open>
  A call of the ledger with its arguments. A sequence of calls pairs each call with the
  reading of \<^verbatim>\<open>Date.now()\<close> it makes. A call that throws leaves the store as it was:
  every \<^verbatim>\<open>throw\<close> of the ledger comes before the first write. The first argument is
  the deserialiser of the client.
\<close>

datatype call =
    AddCredits string int string
  | DeductCredits string int string
  | Reserve string int string
  | ReleaseReservation string bool

fun exec :: "(string \<Rightarrow> string) \<Rightarrow> ledger \<Rightarrow> call \<times> int \<Rightarrow> ledger" where
  "exec readBack s (AddCredits userId amount reason, now) =
     fst (addCredits s userId amount reason now)"
| "exec readBack s (DeductCredits userId amount reason, now) =
     (case deductCredits s userId amount reason now of Inl e \<Rightarrow> s | Inr (s', txId) \<Rightarrow> s')"
| "exec readBack s (Reserve userId amount operationId, now) =
     (case reserveCredits s userId amount operationId now of Inl e \<Rightarrow> s | Inr s' \<Rightarrow> s')"
| "exec readBack s (ReleaseReservation operationId success, now) =
     (case releaseReservation readBack s operationId success of Inl e \<Rightarrow> s | Inr s' \<Rightarrow> s')"

definition run :: "(string \<Rightarrow> string) \<Rightarrow> ledger \<Rightarrow> (call \<times> int) list \<Rightarrow> ledger" where
  "run readBack s calls = foldl (exec readBack) s calls"

text \<open>The balance of a user after each call of a sequence, in order.\<close>

fun balance_trace ::
  "(string \<Rightarrow> string) \<Rightarrow> ledger \<Rightarrow> string \<Rightarrow> (call \<times> int) list \<Rightarrow> int list" where
  "balance_trace readBack s userId [] = []"
| "balance_trace readBack s userId (c # calls) =
     getBalance (exec readBack s c) userId
       # balance_trace readBack (exec readBack s c) userId calls"

fun positive_amount :: "call \<Rightarrow> bool" where
  "positive_amount (AddCredits userId amount reason) = (0 < amount)"
| "positive_amount (DeductCredits userId amount reason) = (0 < amount)"
| "positive_amount (Reserve userId amount operationId) = (0 < amount)"
| "positive_amount (ReleaseReservation operationId success) = True"

fun logs_transaction :: "call \<Rightarrow> bool" where
  "logs_transaction (AddCredits userId amount reason) = True"
| "logs_transaction (DeductCredits userId amount reason) = True"
| "logs_transaction (Reserve userId amount operationId) = False"
| "logs_transaction (ReleaseReservation operationId success) = False"

text \<open>
  The sum of the transaction amounts recorded for a user: the amounts of the hashes
  \<^verbatim>\<open>credit_tx:${txId}\<close> for the ids of \<^verbatim>\<open>credit_history:${userId}\<close>, which are the
  keys \<open>getTransactionHistory\<close> reads.
\<close>

definition recorded_amount :: "ledger \<Rightarrow> string \<Rightarrow> int" where
  "recorded_amount s txId = (case credit_tx s txId of None \<Rightarrow> 0 | Some tx \<Rightarrow> tx_amount tx)"

definition ledger_sum :: "ledger \<Rightarrow> string \<Rightarrow> int" where
  "ledger_sum s userId = sum_list (map (recorded_amount s) (credit_history s userId))"

text \<open>Every pending reservation holds a non-negative amount.\<close>

definition holds_nonneg :: "ledger \<Rightarrow> bool" where
  "holds_nonneg s = (\<forall>operationId reservation.
     credit_reservation s operationId = Some reservation \<longrightarrow> 0 \<le> res_amount reservation)"

subsection \<open>Interleaved calls\<close>

text \<open>
  \<open>deductCredits\<close> and \<open>reserveCredits\<close> reach the store twice: the \<^verbatim>\<open>GET\<close> of
  \<open>getBalance\<close>, and later the pipeline. Each \<^verbatim>\<open>await\<close> lets other calls run, so a
  call in progress is either before its read, or holds the balance it read, or is over.
  A schedule names, step by step, the call that reaches the store next and the clock
  reading it makes.
\<close>

datatype request = DeductReq string int string | ReserveReq string int string

datatype progress = Called | ReadBalance int | Returned | Threw error

fun step :: "ledger \<Rightarrow> request \<times> progress \<Rightarrow> int \<Rightarrow> ledger \<times> request \<times> progress" where
  "step s (DeductReq userId amount reason, Called) now =
     (s, DeductReq userId amount reason, ReadBalance (getBalance s userId))"
| "step s (DeductReq userId amount reason, ReadBalance balance) now =
     (if balance < amount then (s, DeductReq userId amount reason, Threw InsufficientCredits)
      else (fst (deduct_pipeline s userId amount reason now),
            DeductReq userId amount reason, Returned))"
| "step s (ReserveReq userId amount operationId, Called) now =
     (s, ReserveReq userId amount operationId, ReadBalance (getBalance s userId))"
| "step s (ReserveReq userId amount operationId, ReadBalance balance) now =
     (if balance < amount then (s, ReserveReq userId amount operationId, Threw InsufficientCredits)
      else (reserve_pipeline s userId amount operationId now,
            ReserveReq userId amount operationId, Returned))"
| "step s (req, Returned) now = (s, req, Returned)"
| "step s (req, Threw e) now = (s, req, Threw e)"

fun run_schedule ::
  "ledger \<Rightarrow> (request \<times> progress) list \<Rightarrow> (nat \<times> int) list
   \<Rightarrow> ledger \<times> (request \<times> progress) list" where
  "run_schedule s procs [] = (s, procs)"
| "run_schedule s procs ((i, now) # schedule) =
     (if i < length procs
      then (case step s (procs ! i) now of
              (s', p') \<Rightarrow> run_schedule s' (procs[i := p']) schedule)
      else run_schedule s procs schedule)"

subsection \<open>Redis sorted sets and sets, with expiry\<close>

text \<open>
  A key of the rate limiter holds a collection and, once \<^verbatim>\<open>EXPIRE\<close> was called on
  it, the time at which Redis drops it. A sorted set is a list of members with their
  scores in which no member stands twice (\<^verbatim>\<open>ZADD\<close> of a member already there
  replaces its score); a set is a list without repetition. The order within the list
  plays no part, since the code reads cardinalities only. Every command carries the time
  at which the store runs it, counted in the whole seconds of the caller's \<^verbatim>\<open>now\<close>;
  a key whose time has come reads as a key that does not exist, and a key whose collection
  has become empty is removed together with its expiry, as Redis does.
\<close>

record 'a rkey =
  members :: "'a list"
  expires_at :: "int option"

definition absent :: "'a rkey" where
  "absent = \<lparr>members = [], expires_at = None\<rparr>"

definition at_time :: "int \<Rightarrow> 'a rkey \<Rightarrow> 'a rkey" where
  "at_time clock k =
     (case expires_at k of None \<Rightarrow> k | Some t \<Rightarrow> if t \<le> clock then absent else k)"

definition drop_if_empty :: "'a rkey \<Rightarrow> 'a rkey" where
  "drop_if_empty k = (if members k = [] then absent else k)"

fun zupsert :: "string \<Rightarrow> int \<Rightarrow> (string \<times> int) list \<Rightarrow> (string \<times> int) list" where
  "zupsert member score [] = [(member, score)]"
| "zupsert member score ((m, sc) # zs) =
     (if m = member then (member, score) # zs else (m, sc) # zupsert member score zs)"

definition zadd_command ::
  "(string \<times> int) rkey \<Rightarrow> int \<Rightarrow> string \<Rightarrow> int \<Rightarrow> (string \<times> int) rkey" where
  "zadd_command k score member clock =
     (let k' = at_time clock k in k'\<lparr>members := zupsert member score (members k')\<rparr>)"

text \<open>
  \<open>zadd_command\<close> is the Redis command \<^verbatim>\<open>ZADD key score member\<close>. The \<^verbatim>\<open>zadd\<close> of
  the client does not take its arguments in that order: \<^verbatim>\<open>zadd(key, { score, member })\<close>
  takes an entry as one object. Handed a number in the place of that object, as in
  \<^verbatim>\<open>zadd(key, score, member)\<close>, it throws a \<^verbatim>\<open>TypeError\<close> while it builds the command,
  before anything is sent.
\<close>

datatype zadd_arguments = ScoreMember int string | ScoreThenMember int string

fun zadd ::
  "(string \<times> int) rkey \<Rightarrow> zadd_arguments \<Rightarrow> int \<Rightarrow> error + (string \<times> int) rkey" where
  "zadd k (ScoreMember score member) clock = Inr (zadd_command k score member clock)"
| "zadd k (ScoreThenMember score member) clock = Inl ClientTypeError"

definition zremrangebyscore ::
  "(string \<times> int) rkey \<Rightarrow> int \<Rightarrow> int \<Rightarrow> int \<Rightarrow> (string \<times> int) rkey" where
  "zremrangebyscore k lo hi clock =
     (let k' = at_time clock k
      in drop_if_empty
           (k'\<lparr>members := filter (\<lambda>(m, sc). \<not> (lo \<le> sc \<and> sc \<le> hi)) (members k')\<rparr>))"

definition zcard :: "(string \<times> int) rkey \<Rightarrow> int \<Rightarrow> int" where
  "zcard k clock = int (length (members (at_time clock k)))"

definition sadd :: "string rkey \<Rightarrow> string \<Rightarrow> int \<Rightarrow> string rkey" where
  "sadd k member clock =
     (let k' = at_time clock k in k'\<lparr>members := List.insert member (members k')\<rparr>)"

definition srem :: "string rkey \<Rightarrow> string \<Rightarrow> int \<Rightarrow> string rkey" where
  "srem k member clock =
     (let k' = at_time clock k
      in drop_if_empty (k'\<lparr>members := removeAll member (members k')\<rparr>))"

definition scard :: "string rkey \<Rightarrow> int \<Rightarrow> int" where
  "scard k clock = int (length (members (at_time clock k)))"

definition expire :: "'a rkey \<Rightarrow> int \<Rightarrow> int \<Rightarrow> 'a rkey" where
  "expire k ttl clock =
     (let k' = at_time clock k
      in if members k' = [] then k' else k'\<lparr>expires_at := Some (clock + ttl)\<rparr>)"

subsection \<open>RateLimiter\<close>

text \<open>
  \<^verbatim>\<open>this.limits\<close>, with the values the constructor gives it. The three families of
  keys are \<^verbatim>\<open>ratelimit:user:${userId}\<close>, \<^verbatim>\<open>ratelimit:domain:${domain}\<close> (sorted
  sets) and \<^verbatim>\<open>ratelimit:concurrent:${domain}\<close> (a set).
\<close>

record limits =
  user_requests :: int
  user_window :: int
  domain_requests :: int
  domain_window :: int
  domain_concurrent :: int

definition default_limits :: limits where
  "default_limits =
     \<lparr>user_requests = 100, user_window = 3600,
      domain_requests = 60, domain_window = 3600, domain_concurrent = 3\<rparr>"

record limiter =
  user_key :: "string \<Rightarrow> (string \<times> int) rkey"
  domain_key :: "string \<Rightarrow> (string \<times> int) rkey"
  concurrent_key :: "string \<Rightarrow> string rkey"

definition empty_limiter :: limiter where
  "empty_limiter =
     \<lparr>user_key = (\<lambda>_. absent), domain_key = (\<lambda>_. absent), concurrent_key = (\<lambda>_. absent)\<rparr>"

text \<open>
  \<^verbatim>\<open>
  async isAllowed(userId, domain) {
    const now = Math.floor(Date.now() / 1000);
    const pipeline = this.redis.pipeline();
    pipeline.zremrangebyscore(userKey, 0, now - this.limits.user.window);
    pipeline.zremrangebyscore(domainKey, 0, now - this.limits.domain.window);
    pipeline.zcard(userKey); pipeline.zcard(domainKey); pipeline.scard(concurrentKey);
    const [, , userCount, domainCount, concurrentCount] = await pipeline.exec();
    if (userCount >= this.limits.user.requests) throw new Error('User rate limit exceeded');
    if (domainCount >= this.limits.domain.requests) throw new Error('Domain rate limit exceeded');
    if (concurrentCount >= this.limits.domain.concurrent)
      throw new Error('Too many concurrent requests for this domain');
    return true;
  }
  \<close>
  The pipeline has run when the checks are made, so the store is returned with the
  verdict also when the call throws.
\<close>

definition isAllowed ::
  "limits \<Rightarrow> limiter \<Rightarrow> string \<Rightarrow> string \<Rightarrow> int \<Rightarrow> limiter \<times> (error + bool)" where
  "isAllowed cfg s userId domain now =
     (let s1 = s\<lparr>user_key := (user_key s)
                  (userId := zremrangebyscore (user_key s userId) 0 (now - user_window cfg) now)\<rparr>;
          s2 = s1\<lparr>domain_key := (domain_key s1)
                  (domain := zremrangebyscore (domain_key s1 domain) 0 (now - domain_window cfg) now)\<rparr>;
          userCount = zcard (user_key s2 userId) now;
          domainCount = zcard (domain_key s2 domain) now;
          concurrentCount = scard (concurrent_key s2 domain) now
      in if userCount \<ge> user_requests cfg then (s2, Inl (RateLimitExceeded UserScope))
         else if domainCount \<ge> domain_requests cfg then (s2, Inl (RateLimitExceeded DomainScope))
         else if concurrentCount \<ge> domain_concurrent cfg
           then (s2, Inl (ConcurrencyLimitExceeded domain))
         else (s2, Inr True))"

text \<open>
  \<^verbatim>\<open>
  async trackRequest(userId, domain) {
    const now = Math.floor(Date.now() / 1000);
    const requestId = `${userId}:${now}:${Math.random()}`;
    pipeline.zadd(userKey, now, requestId);
    pipeline.zadd(domainKey, now, requestId);
    pipeline.sadd(concurrentKey, requestId);
    pipeline.expire(userKey, this.limits.user.window);
    pipeline.expire(domainKey, this.limits.domain.window);
    pipeline.expire(concurrentKey, 300); // 5 minutes max for concurrent tracking
    await pipeline.exec();
    return requestId;
  }
  \<close>
  The rendering of the number \<^verbatim>\<open>Math.random()\<close> returns is the argument \<open>random\<close>.
  The commands of a pipeline are built one by one and sent together by
  \<^verbatim>\<open>pipeline.exec()\<close>. Both \<^verbatim>\<open>zadd\<close> calls hand the score and the member over as two
  arguments, so the first of them throws; the store is then as it was, and the call
  returns no request id.
\<close>

definition requestId_of :: "string \<Rightarrow> int \<Rightarrow> string \<Rightarrow> string" where
  "requestId_of userId now random = userId @ '':'' @ toString now @ '':'' @ random"

definition trackRequest ::
  "limits \<Rightarrow> limiter \<Rightarrow> string \<Rightarrow> string \<Rightarrow> int \<Rightarrow> string \<Rightarrow> limiter \<times> (error + string)" where
  "trackRequest cfg s userId domain now random =
     (let requestId = requestId_of userId now random
      in case zadd (user_key s userId) (ScoreThenMember now requestId) now of
           Inl e \<Rightarrow> (s, Inl e)
         | Inr userEntries \<Rightarrow>
             (case zadd (domain_key s domain) (ScoreThenMember now requestId) now of
                Inl e \<Rightarrow> (s, Inl e)
              | Inr domainEntries \<Rightarrow>
                  (let s1 = s\<lparr>user_key := (user_key s)(userId := userEntries)\<rparr>;
                       s2 = s1\<lparr>domain_key := (domain_key s1)(domain := domainEntries)\<rparr>;
                       s3 = s2\<lparr>concurrent_key := (concurrent_key s2)
                               (domain := sadd (concurrent_key s2 domain) requestId now)\<rparr>;
                       s4 = s3\<lparr>user_key := (user_key s3)
                               (userId := expire (user_key s3 userId) (user_window cfg) now)\<rparr>;
                       s5 = s4\<lparr>domain_key := (domain_key s4)
                               (domain := expire (domain_key s4 domain) (domain_window cfg) now)\<rparr>;
                       s6 = s5\<lparr>concurrent_key := (concurrent_key s5)
                               (domain := expire (concurrent_key s5 domain) 300 now)\<rparr>
                   in (s6, Inr requestId))))"

text \<open>
  \<^verbatim>\<open>
  async completeRequest(domain, requestId) {
    await this.redis.srem(`ratelimit:concurrent:${domain}`, requestId);
  }
  \<close>
\<close>

definition completeRequest :: "limiter \<Rightarrow> string \<Rightarrow> string \<Rightarrow> int \<Rightarrow> limiter" where
  "completeRequest s domain requestId clock =
     s\<lparr>concurrent_key := (concurrent_key s)
         (domain := srem (concurrent_key s domain) requestId clock)\<rparr>"

text \<open>
  Admission as \<^verbatim>\<open>rateLimiterMiddleware\<close> (src/middleware/rateLimiter.js) performs it:
  \<^verbatim>\<open>await rateLimiter.isAllowed(userId, domain)\<close>, then
  \<^verbatim>\<open>await rateLimiter.trackRequest(userId, domain)\<close>, both within the second \<open>now\<close>.
\<close>

definition admit ::
  "limits \<Rightarrow> limiter \<Rightarrow> string \<Rightarrow> string \<Rightarrow> int \<Rightarrow> string \<Rightarrow> limiter \<times> (error + string)" where
  "admit cfg s userId domain now random =
     (case isAllowed cfg s userId domain now of
        (s1, Inl e) \<Rightarrow> (s1, Inl e)
      | (s1, Inr allowed) \<Rightarrow> trackRequest cfg s1 userId domain now random)"

text \<open>The entries of a window, and the members of a concurrency set, that a reader sees.\<close>

definition live :: "'a rkey \<Rightarrow> int \<Rightarrow> 'a list" where
  "live k clock = members (at_time clock k)"

text \<open>
  What \<^verbatim>\<open>zremrangebyscore(key, 0, now - window)\<close> leaves of a window: the entries
  whose score is not in the closed range from \<open>0\<close> to \<open>now - window\<close>.
\<close>

definition within_window :: "int \<Rightarrow> int \<Rightarrow> (string \<times> int) list \<Rightarrow> (string \<times> int) list" where
  "within_window now window entries =
     filter (\<lambda>(member, score). \<not> (0 \<le> score \<and> score \<le> now - window)) entries"

section \<open>Theorems\<close>

subsection \<open>Decimal rendering is injective\<close>

lemma digit_char_inj: "d < 10 \<Longrightarrow> e < 10 \<Longrightarrow> digit_char d = digit_char e \<Longrightarrow> d = e"
proof -
  assume d: "d < 10" and e: "e < 10" and eq: "digit_char d = digit_char e"
  have "distinct ''0123456789''" by simp
  moreover have "d < length ''0123456789''" "e < length ''0123456789''"
    using d e by simp_all
  ultimately show "d = e"
    using eq unfolding digit_char_def by (simp only: nth_eq_iff_index_eq)
qed

lemma digit_char_not_minus: "d < 10 \<Longrightarrow> digit_char d \<noteq> CHR ''-''"
proof
  assume d: "d < 10" and eq: "digit_char d = CHR ''-''"
  from d have "''0123456789'' ! d \<in> set ''0123456789''"
    by (intro nth_mem) simp
  with eq show False by (simp add: digit_char_def)
qed

lemma digits_nonempty: "digits n \<noteq> []"
  by (subst digits.simps) simp

lemma digits_inj: "digits n = digits m \<Longrightarrow> n = m"
proof (induction n arbitrary: m rule: digits.induct)
  case (1 n)
  show ?case
  proof (cases "n < 10")
    case True
    note n = this
    show ?thesis
    proof (cases "m < 10")
      case True
      with n "1.prems" show ?thesis
        by (simp add: digits.simps [of n] digits.simps [of m] digit_char_inj)
    next
      case False
      with n "1.prems" digits_nonempty [of "m div 10"] show ?thesis
        by (simp add: digits.simps [of n] digits.simps [of m])
    qed
  next
    case False
    note n = this
    show ?thesis
    proof (cases "m < 10")
      case True
      with n "1.prems" digits_nonempty [of "n div 10"] show ?thesis
        by (simp add: digits.simps [of n] digits.simps [of m])
    next
      case False
      with n "1.prems" have eq: "digits (n div 10) = digits (m div 10)"
        and dg: "digit_char (n mod 10) = digit_char (m mod 10)"
        by (simp_all add: digits.simps [of n] digits.simps [of m])
      from "1.IH" [OF n eq] have "n div 10 = m div 10" .
      moreover from dg have "n mod 10 = m mod 10"
        by (intro digit_char_inj) simp_all
      ultimately show ?thesis
        by (metis div_mult_mod_eq)
    qed
  qed
qed

lemma digits_no_minus: "CHR ''-'' \<notin> set (digits n)"
proof (induction n rule: digits.induct)
  case (1 n)
  show ?case
  proof (cases "n < 10")
    case True
    then show ?thesis
      using digit_char_not_minus [of n] by (simp add: digits.simps [of n])
  next
    case False
    with "1.IH" show ?thesis
      using digit_char_not_minus [of "n mod 10"] by (simp add: digits.simps [of n])
  qed
qed

lemma toString_inj: "toString a = toString b \<Longrightarrow> a = b"
proof -
  assume eq: "toString a = toString b"
  have neg_pos: "CHR ''-'' # digits x \<noteq> digits y" for x y
  proof
    assume "CHR ''-'' # digits x = digits y"
    then have "CHR ''-'' \<in> set (digits y)" by (metis list.set_intros(1))
    with digits_no_minus show False by blast
  qed
  show "a = b"
  proof (cases "a < 0")
    case True
    note a = this
    show ?thesis
    proof (cases "b < 0")
      case True
      with a eq have "digits (nat (- a)) = digits (nat (- b))"
        by (simp add: toString_def)
      then have "nat (- a) = nat (- b)" by (rule digits_inj)
      with a True show ?thesis by simp
    next
      case False
      with a eq neg_pos show ?thesis by (simp add: toString_def)
    qed
  next
    case False
    note a = this
    show ?thesis
    proof (cases "b < 0")
      case True
      with a eq neg_pos [of "nat (- b)" "nat a"] show ?thesis by (simp add: toString_def)
    next
      case False
      with a eq have "digits (nat a) = digits (nat b)"
        by (simp add: toString_def)
      then have "nat a = nat b" by (rule digits_inj)
      with a False show ?thesis by simp
    qed
  qed
qed

subsection \<open>Rounding to a double\<close>

lemma bit_length_le: "n < 2 ^ k \<Longrightarrow> bit_length n \<le> k"
proof (induction k arbitrary: n)
  case 0
  then show ?case by (simp add: bit_length.simps)
next
  case (Suc k)
  show ?case
  proof (cases "n = 0")
    case True
    then show ?thesis by (simp add: bit_length.simps)
  next
    case False
    from Suc.prems have "n div 2 < 2 ^ k" by simp
    from Suc.IH [OF this] False show ?thesis
      by (subst bit_length.simps) simp
  qed
qed

lemma bit_length_0: "bit_length 0 = 0"
  by (subst bit_length.simps) simp

lemma bit_length_1: "bit_length (Suc 0) = Suc 0"
  by (subst bit_length.simps) (simp add: bit_length_0)

lemma bit_length_Bit0: "bit_length (numeral (Num.Bit0 k)) = Suc (bit_length (numeral k))"
  by (subst bit_length.simps) simp

lemma bit_length_Bit1: "bit_length (numeral (Num.Bit1 k)) = Suc (bit_length (numeral k))"
  by (subst bit_length.simps) simp

lemmas bit_length_numeral = bit_length_0 bit_length_1 bit_length_Bit0 bit_length_Bit1

text \<open>Below \<open>2^52\<close> every multiple of one half is a double.\<close>

lemma round_to_double_exact: "\<bar>twice\<bar> < 2 ^ 53 \<Longrightarrow> round_to_double twice = twice"
proof -
  assume "\<bar>twice\<bar> < 2 ^ 53"
  then have "nat \<bar>twice\<bar> < 2 ^ 53"
    by (simp add: nat_less_iff)
  then have "bit_length (nat \<bar>twice\<bar>) \<le> 53" by (rule bit_length_le)
  then show ?thesis by (simp add: round_to_double_def)
qed

lemma round_to_double_multiple:
  "2 ^ (bit_length (nat \<bar>twice\<bar>) - 53) dvd twice \<Longrightarrow> round_to_double twice = twice"
  by (auto simp add: round_to_double_def Let_def)

text \<open>A double that is twice an integer is an even number of halves.\<close>

lemma round_to_double_even: "even (round_to_double (2 * n))"
  by (auto simp add: round_to_double_def Let_def)

text \<open>Below \<open>2^53\<close> every integer is a double.\<close>

lemma round_to_double_twice: "\<bar>n\<bar> < 2 ^ 53 \<Longrightarrow> round_to_double (2 * n) = 2 * n"
proof -
  assume n: "\<bar>n\<bar> < 2 ^ 53"
  then have "nat \<bar>2 * n\<bar> < 2 ^ 54"
    by (simp add: nat_less_iff abs_mult)
  then have b: "bit_length (nat \<bar>2 * n\<bar>) \<le> 54" by (rule bit_length_le)
  have "(2::int) ^ (bit_length (nat \<bar>2 * n\<bar>) - 53) dvd 2 * n"
  proof (cases "bit_length (nat \<bar>2 * n\<bar>) \<le> 53")
    case True
    then show ?thesis by simp
  next
    case False
    with b have "bit_length (nat \<bar>2 * n\<bar>) - 53 = 1" by simp
    then show ?thesis by simp
  qed
  then show ?thesis by (rule round_to_double_multiple)
qed

text \<open>
  Beyond: \<open>3 * (2^53 - 1)\<close> halves lie between two doubles and go to the nearer one;
  \<open>2^53 + 1\<close> halves lie midway between two doubles and go to the one with the even
  significand.
\<close>

lemma round_to_double_samples:
  "round_to_double 27021597764222973 = 27021597764222972"
  "round_to_double 27021597764222972 = 27021597764222972"
  "round_to_double 9007199254740993 = 9007199254740992"
  "round_to_double 9007199254740992 = 9007199254740992"
  "round_to_double 9007199515875289 = 9007199515875288"
  "round_to_double 9007199515875288 = 9007199515875288"
  by (simp_all add: round_to_double_def bit_length_numeral)

subsection \<open>Cost formulas\<close>

lemma ceiling_half: "\<lceil>(of_int a :: rat) / 2\<rceil> = (a + 1) div 2"
proof -
  have "\<lceil>(of_int a :: rat) / of_int 2\<rceil> = - ((- a) div 2)"
    by (simp only: ceiling_divide_eq_div)
  then show ?thesis by simp
qed

lemma crawl_cost_exact_halves:
  "crawl_cost_exact pages depth customChecks =
     of_int ((if depth > 1 then pages * (depth + 1) else 2 * pages) + 4 * customChecks) / 2"
proof (cases "depth > 1")
  case True
  then have "max 0 (of_int depth - 1 :: rat) = of_int depth - 1"
    by (simp add: max_def)
  with True show ?thesis
    by (simp add: crawl_cost_exact_def field_simps)
next
  case False
  then have "max 0 (of_int depth - 1 :: rat) = 0"
    by (simp add: max_def)
  with False show ?thesis
    by (simp add: crawl_cost_exact_def field_simps)
qed

lemma crawl_cost_formula_int:
  "crawl_cost_formula pages depth customChecks =
     ((if depth > 1 then pages * (depth + 1) else 2 * pages) + 4 * customChecks + 1) div 2"
  unfolding crawl_cost_formula_def crawl_cost_exact_halves by (rule ceiling_half)

lemma recheck_cost_formula_int: "recheck_cost_formula n = (n + 1) div 2"
proof -
  have "(of_int n :: rat) * (1 / 2) = of_int n / 2" by simp
  then show ?thesis
    unfolding recheck_cost_formula_def by (simp only: ceiling_half)
qed

lemma calculateCrawlCost_shallow:
  assumes "\<not> depth > 1" "0 \<le> pages" "0 \<le> customChecks" "2 * pages + 4 * customChecks < 2 ^ 53"
  shows "calculateCrawlCost pages depth customChecks = (2 * pages + 4 * customChecks + 1) div 2"
proof -
  from assms have c: "round_to_double (4 * customChecks) = 4 * customChecks"
    by (intro round_to_double_exact) simp
  from assms have s: "round_to_double (2 * pages + 4 * customChecks) = 2 * pages + 4 * customChecks"
    by (intro round_to_double_exact) simp
  from assms(1) show ?thesis
    by (simp add: calculateCrawlCost_def Let_def c s)
qed

lemma calculateCrawlCost_deep:
  assumes d: "depth > 1" and p: "0 \<le> pages" and cc: "0 \<le> customChecks"
    and bound: "pages * (depth + 1) + 4 * customChecks < 2 ^ 53"
  shows "calculateCrawlCost pages depth customChecks
           = (pages * (depth + 1) + 4 * customChecks + 1) div 2"
proof -
  from d p have nonneg: "0 \<le> pages * (depth + 1)" by simp
  from cc bound nonneg have c: "round_to_double (4 * customChecks) = 4 * customChecks"
    by (intro round_to_double_exact) simp
  have prod: "round_to_double (pages * round_to_double (2 + round_to_double (2 * depth - 2) div 2))
      = pages * (depth + 1)"
  proof (cases "pages = 0")
    case True
    then show ?thesis by (simp add: round_to_double_exact)
  next
    case False
    with p have "1 \<le> pages" by simp
    with d have "1 * (depth + 1) \<le> pages * (depth + 1)"
      by (intro mult_right_mono) simp_all
    with bound cc have small: "depth + 1 < 2 ^ 53" by simp
    with d have "round_to_double (2 * (depth - 1)) = 2 * (depth - 1)"
      by (intro round_to_double_twice) simp
    then have levels: "round_to_double (2 * depth - 2) = 2 * (depth - 1)"
      by (simp add: algebra_simps)
    from small d have factor: "round_to_double (depth + 1) = depth + 1"
      by (intro round_to_double_exact) simp
    from bound cc nonneg have "round_to_double (pages * (depth + 1)) = pages * (depth + 1)"
      by (intro round_to_double_exact) simp
    with levels factor show ?thesis
      by (simp add: add.commute)
  qed
  from bound cc nonneg have s: "round_to_double (pages * (depth + 1) + 4 * customChecks)
      = pages * (depth + 1) + 4 * customChecks"
    by (intro round_to_double_exact) simp
  from d show ?thesis
    by (simp add: calculateCrawlCost_def Let_def prod c s)
qed

lemma cost_samples:
  "calculateCrawlCost 1 1 0 = 1" "calculateCrawlCost 1 3 0 = 2" "calculateCrawlCost 10 1 2 = 14"
  "calculateRecheckCost 5 = 3"
  by (simp_all add: calculateCrawlCost_def calculateRecheckCost_def round_to_double_exact)

text \<open>
  Claim C5 as stated fails: the cost is computed in doubles, and beyond \<open>2^52\<close> a double
  holds no halves. For \<open>2^53 - 1\<close> pages at depth 2 the exact product
  \<open>13510798882111486.5\<close> is rounded to \<open>13510798882111486\<close>, which is what the code
  returns, one less than the ceiling \<open>13510798882111487\<close> of the formula. The same
  happens at 3002399751580331 pages and depth 2, and at 94906267 pages and depth 94906266.
\<close>

theorem C5_double_rounding_counterexample:
  "calculateCrawlCost 9007199254740991 2 0 = 13510798882111486
   \<and> crawl_cost_formula 9007199254740991 2 0 = 13510798882111487
   \<and> calculateCrawlCost 3002399751580331 2 0 = 4503599627370496
   \<and> crawl_cost_formula 3002399751580331 2 0 = 4503599627370497
   \<and> calculateCrawlCost 94906267 94906266 0 = 4503599757937644
   \<and> crawl_cost_formula 94906267 94906266 0 = 4503599757937645"
  by (simp add: calculateCrawlCost_def crawl_cost_formula_int round_to_double_exact
      round_to_double_samples)

text \<open>
  Claim C5, amended. For natural numbers \<open>pages\<close>, \<open>depth\<close> and \<open>customChecks\<close> for
  which the exact value \<open>pages * (1 + max 0 (depth - 1) * 0.5) + customChecks * 2\<close> is
  below \<open>2^52\<close>, \<open>calculateCrawlCost\<close> returns exactly the ceiling of that value.
  \<open>calculateRecheckCost\<close> returns exactly the ceiling of \<open>issueCount * 0.5\<close> for every
  argument. Both are functions of their arguments alone: they neither read nor return a
  store. The four sample values of the specification are \<open>1\<close>, \<open>2\<close>, \<open>14\<close> and \<open>3\<close>.
\<close>

theorem C5_cost_formulas:
  assumes "0 \<le> pages" and "0 \<le> depth" and "0 \<le> customChecks"
    and "crawl_cost_exact pages depth customChecks < 2 ^ 52"
  shows "calculateCrawlCost pages depth customChecks = crawl_cost_formula pages depth customChecks
    \<and> calculateRecheckCost issueCount = recheck_cost_formula issueCount
    \<and> calculateCrawlCost 1 1 0 = 1
    \<and> calculateCrawlCost 1 3 0 = 2
    \<and> calculateCrawlCost 10 1 2 = 14
    \<and> calculateRecheckCost 5 = 3"
proof -
  let ?twice = "(if depth > 1 then pages * (depth + 1) else 2 * pages) + 4 * customChecks"
  from assms(4) have "(of_int ?twice :: rat) / 2 < 2 ^ 52"
    by (simp only: crawl_cost_exact_halves)
  then have "(of_int ?twice :: rat) < of_int (2 ^ 53)"
    by simp
  then have bound: "?twice < 2 ^ 53"
    by (simp only: of_int_less_iff)
  have crawl: "calculateCrawlCost pages depth customChecks = crawl_cost_formula pages depth customChecks"
  proof (cases "depth > 1")
    case True
    with bound have "pages * (depth + 1) + 4 * customChecks < 2 ^ 53" by simp
    from calculateCrawlCost_deep [OF True assms(1) assms(3) this] True show ?thesis
      by (simp add: crawl_cost_formula_int)
  next
    case False
    with bound have "2 * pages + 4 * customChecks < 2 ^ 53" by simp
    from calculateCrawlCost_shallow [OF False assms(1) assms(3) this] False show ?thesis
      by (simp add: crawl_cost_formula_int)
  qed
  have recheck: "calculateRecheckCost issueCount = recheck_cost_formula issueCount"
    by (simp add: calculateRecheckCost_def recheck_cost_formula_int)
  from crawl recheck cost_samples show ?thesis by simp
qed

theorem C5_cost_formulas_witness:
  "(0::int) \<le> 10 \<and> (0::int) \<le> 3 \<and> (0::int) \<le> 2 \<and> crawl_cost_exact 10 3 2 < 2 ^ 52
   \<and> calculateCrawlCost 10 3 2 = 24 \<and> crawl_cost_formula 10 3 2 = 24
   \<and> calculateRecheckCost 7 = 4 \<and> recheck_cost_formula 7 = 4"
proof -
  have h: "(0::int) \<le> 10" "(0::int) \<le> 3" "(0::int) \<le> 2" "crawl_cost_exact 10 3 2 < 2 ^ 52"
    by (simp_all add: crawl_cost_exact_def)
  have f: "crawl_cost_formula 10 3 2 = 24" "recheck_cost_formula 7 = 4"
    by (simp_all add: crawl_cost_formula_int recheck_cost_formula_int)
  from C5_cost_formulas [OF h, of 7] f h show ?thesis by simp
qed

subsection \<open>The ledger, call by call\<close>

lemma getBalance_incrby:
  "credits s' = incrby (credits s) u n \<Longrightarrow>
   getBalance s' v = (if v = u then getBalance s u + n else getBalance s v)"
  by (simp add: getBalance_def incrby_def)

lemma getBalance_decrby:
  "credits s' = decrby (credits s) u n \<Longrightarrow>
   getBalance s' v = (if v = u then getBalance s u - n else getBalance s v)"
  by (simp add: getBalance_def decrby_def)

lemma getBalance_same: "credits s' = credits s \<Longrightarrow> getBalance s' v = getBalance s v"
  by (simp add: getBalance_def)

lemma reserveCredits_fails:
  "getBalance s u < a \<Longrightarrow> reserveCredits s u a opn now = Inl InsufficientCredits"
  by (simp add: reserveCredits_def)

lemma reserveCredits_succeeds:
  "\<not> getBalance s u < a \<Longrightarrow>
   reserveCredits s u a opn now = Inr (reserve_pipeline s u a opn now)"
  by (simp add: reserveCredits_def)

lemma reserve_pipeline_balance:
  "getBalance (reserve_pipeline s u a opn now) v =
     (if v = u then getBalance s u - a else getBalance s v)"
  by (rule getBalance_decrby) (simp add: reserve_pipeline_def)

lemma reserve_pipeline_record:
  "credit_reservation (reserve_pipeline s u a opn now) opn' =
     (if opn' = opn then Some \<lparr>res_userId = u, res_amount = a, res_timestamp = now\<rparr>
      else credit_reservation s opn')"
  by (simp add: reserve_pipeline_def hset_def)

lemma reserve_pipeline_log:
  "credit_tx (reserve_pipeline s u a opn now) = credit_tx s \<and>
   credit_history (reserve_pipeline s u a opn now) = credit_history s"
  by (simp add: reserve_pipeline_def)

lemma releaseReservation_none:
  "credit_reservation s opn = None \<Longrightarrow>
   releaseReservation readBack s opn success = Inl ReservationNotFound"
  by (simp add: releaseReservation_def hgetall_def)

lemma releaseReservation_some:
  "credit_reservation s opn = Some r \<Longrightarrow>
   releaseReservation readBack s opn success
     = Inr (release_pipeline s opn success (read_reservation readBack r))"
  by (simp add: releaseReservation_def hgetall_def)

lemma read_reservation_fields:
  "res_userId (read_reservation readBack r) = readBack (res_userId r)"
  "res_amount (read_reservation readBack r) = res_amount r"
  by (simp_all add: read_reservation_def)

lemma released_balance:
  "getBalance (release_pipeline s opn success r) v =
     (if \<not> success \<and> v = res_userId r then getBalance s v + res_amount r else getBalance s v)"
proof (cases success)
  case True
  then show ?thesis by (simp add: release_pipeline_def getBalance_def)
next
  case False
  then have "credits (release_pipeline s opn success r) = incrby (credits s) (res_userId r) (res_amount r)"
    by (simp add: release_pipeline_def)
  from getBalance_incrby [OF this] False show ?thesis by simp
qed

lemma released_record:
  "credit_reservation (release_pipeline s opn success r) opn' =
     (if opn' = opn then None else credit_reservation s opn')"
  by (simp add: release_pipeline_def del_def)

lemma released_log:
  "credit_tx (release_pipeline s opn success r) = credit_tx s \<and>
   credit_history (release_pipeline s opn success r) = credit_history s"
  by (simp add: release_pipeline_def del_def)

lemma deductCredits_fails:
  "getBalance s u < a \<Longrightarrow> deductCredits s u a reason now = Inl InsufficientCredits"
  by (simp add: deductCredits_def)

lemma deductCredits_succeeds:
  "\<not> getBalance s u < a \<Longrightarrow>
   deductCredits s u a reason now = Inr (deduct_pipeline s u a reason now)"
  by (simp add: deductCredits_def)

lemma deduct_pipeline_balance:
  "getBalance (fst (deduct_pipeline s u a reason now)) v =
     (if v = u then getBalance s u - a else getBalance s v)"
  by (rule getBalance_decrby) (simp add: deduct_pipeline_def Let_def)

lemma deduct_pipeline_reservations:
  "credit_reservation (fst (deduct_pipeline s u a reason now)) = credit_reservation s"
  by (simp add: deduct_pipeline_def Let_def)

lemma addCredits_balance:
  "getBalance (fst (addCredits s u a reason now)) v =
     (if v = u then getBalance s u + a else getBalance s v)"
  by (rule getBalance_incrby) (simp add: addCredits_def Let_def)

lemma addCredits_reservations:
  "credit_reservation (fst (addCredits s u a reason now)) = credit_reservation s"
  by (simp add: addCredits_def Let_def)

lemmas ledger_defs =
  empty_ledger_def addCredits_def deductCredits_def deduct_pipeline_def
  reserveCredits_def reserve_pipeline_def releaseReservation_def release_pipeline_def
  getBalance_def incrby_def decrby_def hset_def hgetall_def del_def lpush_def Let_def
  read_reservation_def sample_readBack_def

subsection \<open>Reservations\<close>

text \<open>
  Claim C3 as stated fails: after a reservation for \<open>op1\<close> is pending, a second
  \<open>reserveCredits\<close> with the same operation id does not fail with
  \<open>DuplicateOperation\<close>; it succeeds and lowers the balance again (20, 15, 8).
\<close>

theorem C3_duplicate_reserve_counterexample:
  "credit_reservation
     (run sample_readBack empty_ledger
        [(AddCredits ''user'' 20 ''purchase'', 1), (Reserve ''user'' 5 ''op1'', 2)])
     ''op1'' \<noteq> None
   \<and> reserveCredits
       (run sample_readBack empty_ledger
          [(AddCredits ''user'' 20 ''purchase'', 1), (Reserve ''user'' 5 ''op1'', 2)])
       ''user'' 7 ''op1'' 3 \<noteq> Inl DuplicateOperation
   \<and> balance_trace sample_readBack empty_ledger ''user''
       [(AddCredits ''user'' 20 ''purchase'', 1), (Reserve ''user'' 5 ''op1'', 2),
        (Reserve ''user'' 7 ''op1'', 3)] = [20, 15, 8]"
  by (simp add: run_def ledger_defs)

text \<open>
  Claim C3, amended. \<open>reserveCredits\<close> never fails with \<open>DuplicateOperation\<close>, whether
  or not a reservation is pending for the operation id. It fails with
  \<open>InsufficientCredits\<close> when the balance is below the amount. Otherwise it lowers the
  user's balance by the amount and stores, under the operation id, a reservation with the
  user, the amount and the clock reading, replacing any record stored there; no other
  balance, no other reservation and nothing of the transaction log changes.
\<close>

theorem C3_reserve:
  "reserveCredits s userId amount operationId now \<noteq> Inl DuplicateOperation
   \<and> (getBalance s userId < amount \<longrightarrow>
        reserveCredits s userId amount operationId now = Inl InsufficientCredits)
   \<and> (\<not> getBalance s userId < amount \<longrightarrow>
        (case reserveCredits s userId amount operationId now of
           Inl e \<Rightarrow> False
         | Inr s' \<Rightarrow>
             getBalance s' userId = getBalance s userId - amount
             \<and> credit_reservation s' operationId
                 = Some \<lparr>res_userId = userId, res_amount = amount, res_timestamp = now\<rparr>
             \<and> (\<forall>other. other \<noteq> userId \<longrightarrow> getBalance s' other = getBalance s other)
             \<and> (\<forall>other. other \<noteq> operationId \<longrightarrow>
                   credit_reservation s' other = credit_reservation s other)
             \<and> credit_tx s' = credit_tx s \<and> credit_history s' = credit_history s))"
proof (cases "getBalance s userId < amount")
  case True
  then show ?thesis by (simp add: reserveCredits_fails)
next
  case False
  then show ?thesis
    by (simp add: reserveCredits_succeeds reserve_pipeline_balance reserve_pipeline_record
        reserve_pipeline_log)
qed

theorem C3_reserve_witness:
  "getBalance (fst (addCredits empty_ledger ''user'' 20 ''purchase'' 1)) ''user'' < 30
   \<and> reserveCredits (fst (addCredits empty_ledger ''user'' 20 ''purchase'' 1)) ''user'' 30 ''op1'' 2
       = Inl InsufficientCredits
   \<and> \<not> getBalance (fst (addCredits empty_ledger ''user'' 20 ''purchase'' 1)) ''user'' < 5
   \<and> ''other'' \<noteq> ''user'' \<and> ''op2'' \<noteq> ''op1''
   \<and> (case reserveCredits (fst (addCredits empty_ledger ''user'' 20 ''purchase'' 1)) ''user'' 5 ''op1'' 2 of
         Inl e \<Rightarrow> False
       | Inr s' \<Rightarrow>
           getBalance s' ''user'' = 15
           \<and> credit_reservation s' ''op1''
               = Some \<lparr>res_userId = ''user'', res_amount = 5, res_timestamp = 2\<rparr>
           \<and> getBalance s' ''other'' = 0
           \<and> credit_reservation s' ''op2'' = None)"
proof -
  let ?s = "fst (addCredits empty_ledger ''user'' 20 ''purchase'' 1)"
  have b: "getBalance ?s ''user'' = 20" "getBalance ?s ''other'' = 0"
    "credit_reservation ?s ''op2'' = None"
    by (simp_all add: ledger_defs)
  from C3_reserve [of ?s "''user''" 30 "''op1''" 2]
  have a: "reserveCredits ?s ''user'' 30 ''op1'' 2 = Inl InsufficientCredits"
    by (simp add: b)
  from C3_reserve [of ?s "''user''" 5 "''op1''" 2]
  have c: "case reserveCredits ?s ''user'' 5 ''op1'' 2 of
         Inl e \<Rightarrow> False
       | Inr s' \<Rightarrow>
           getBalance s' ''user'' = 15
           \<and> credit_reservation s' ''op1''
               = Some \<lparr>res_userId = ''user'', res_amount = 5, res_timestamp = 2\<rparr>
           \<and> getBalance s' ''other'' = 0
           \<and> credit_reservation s' ''op2'' = None"
    by (auto simp add: b split: sum.splits)
  from a c show ?thesis by (simp add: b)
qed

text \<open>
  What a release does to the balances. The refund of a release with \<open>success = false\<close>
  goes to the user id as the client reads it back. Where that is the user id
  \<open>reserveCredits\<close> stored, the release restores the balance from before the
  reservation; a release with \<open>success = true\<close> leaves every balance as it is.
\<close>

lemma release_refund:
  assumes r: "credit_reservation s operationId = Some r"
  shows "releaseReservation readBack s operationId False
           = Inr (release_pipeline s operationId False (read_reservation readBack r))"
    and "getBalance (release_pipeline s operationId False (read_reservation readBack r)) v
           = (if v = readBack (res_userId r) then getBalance s v + res_amount r else getBalance s v)"
    and "credit_reservation (release_pipeline s operationId False (read_reservation readBack r))
           operationId = None"
  by (simp_all add: releaseReservation_some [OF r] released_balance released_record
      read_reservation_fields)

lemma release_kept:
  assumes r: "credit_reservation s operationId = Some r"
  shows "releaseReservation readBack s operationId True
           = Inr (release_pipeline s operationId True (read_reservation readBack r))"
    and "credits (release_pipeline s operationId True (read_reservation readBack r)) = credits s"
    and "credit_reservation (release_pipeline s operationId True (read_reservation readBack r))
           operationId = None"
  by (simp_all add: releaseReservation_some [OF r] released_record)
    (simp add: release_pipeline_def)

lemma reserved:
  assumes ok: "reserveCredits s0 userId a operationId now = Inr s1"
  shows "credit_reservation s1 operationId
           = Some \<lparr>res_userId = userId, res_amount = a, res_timestamp = now\<rparr>"
    and "getBalance s1 userId = getBalance s0 userId - a"
proof -
  from ok have enough: "\<not> getBalance s0 userId < a"
    by (auto simp add: reserveCredits_def Let_def split: if_splits)
  with ok have s1: "s1 = reserve_pipeline s0 userId a operationId now"
    by (simp add: reserveCredits_succeeds)
  show "credit_reservation s1 operationId
           = Some \<lparr>res_userId = userId, res_amount = a, res_timestamp = now\<rparr>"
    by (simp add: s1 reserve_pipeline_record)
  show "getBalance s1 userId = getBalance s0 userId - a"
    by (simp add: s1 reserve_pipeline_balance)
qed

lemma reserve_then_refund:
  assumes same: "readBack userId = userId"
    and ok: "reserveCredits s0 userId a operationId now = Inr s1"
  shows "case releaseReservation readBack s1 operationId False of
           Inl e \<Rightarrow> False
         | Inr s2 \<Rightarrow> getBalance s2 userId = getBalance s0 userId"
  by (simp add: release_refund [OF reserved(1) [OF ok]] same reserved(2) [OF ok])

lemma reserve_then_keep:
  assumes ok: "reserveCredits s0 userId a operationId now = Inr s1"
  shows "case releaseReservation readBack s1 operationId True of
           Inl e \<Rightarrow> False
         | Inr s2 \<Rightarrow>
             getBalance s2 userId = getBalance s0 userId - a
             \<and> (f \<le> getBalance s0 userId - a \<longrightarrow>
                (case deductCredits s2 userId f reason now' of
                   Inl e \<Rightarrow> False
                 | Inr (s3, txId) \<Rightarrow> getBalance s3 userId = getBalance s0 userId - (a + f)))"
proof -
  let ?r = "\<lparr>res_userId = userId, res_amount = a, res_timestamp = now\<rparr>"
  let ?s2 = "release_pipeline s1 operationId True (read_reservation readBack ?r)"
  have kept: "getBalance ?s2 userId = getBalance s0 userId - a"
    by (simp add: released_balance reserved(2) [OF ok])
  have after: "case deductCredits ?s2 userId f reason now' of
         Inl e \<Rightarrow> False
       | Inr (s3, txId) \<Rightarrow> getBalance s3 userId = getBalance s0 userId - (a + f)"
    if f: "f \<le> getBalance s0 userId - a"
  proof -
    from f kept have "\<not> getBalance ?s2 userId < f" by simp
    then have d: "deductCredits ?s2 userId f reason now' = Inr (deduct_pipeline ?s2 userId f reason now')"
      by (rule deductCredits_succeeds)
    have "getBalance (fst (deduct_pipeline ?s2 userId f reason now')) userId
        = getBalance s0 userId - (a + f)"
      by (simp add: deduct_pipeline_balance kept)
    with d show ?thesis by (simp add: case_prod_beta)
  qed
  from kept after show ?thesis
    by (simp add: releaseReservation_some [OF reserved(1) [OF ok]])
qed

text \<open>
  Claim C4 fails in the code for a user id that is JSON text. Let the user \<^verbatim>\<open>'1e3'\<close>
  hold 20 credits and reserve 10 for \<open>op1\<close>: the balance is 10. The release with
  \<open>success = false\<close> reads the reservation back with the user id 1000, so the refund
  goes to the key \<^verbatim>\<open>credits:1000\<close>: the balance of \<^verbatim>\<open>'1e3'\<close> stays at 10 instead
  of returning to 20, and the user \<^verbatim>\<open>'1000'\<close>, who had nothing, holds 10. The record is
  deleted all the same. For the user id \<^verbatim>\<open>'user'\<close> the two runs of the specification
  give the balances it states: 100, 86, 86, 66 and 20, 10, 20.
\<close>

theorem C4_refund_to_the_id_read_back:
  "balance_trace sample_readBack empty_ledger ''1e3''
        [(AddCredits ''1e3'' 20 ''purchase'', 1), (Reserve ''1e3'' 10 ''op1'', 2),
         (ReleaseReservation ''op1'' False, 3)]
      = [20, 10, 10]
   \<and> balance_trace sample_readBack empty_ledger ''1000''
        [(AddCredits ''1e3'' 20 ''purchase'', 1), (Reserve ''1e3'' 10 ''op1'', 2),
         (ReleaseReservation ''op1'' False, 3)]
      = [0, 0, 10]
   \<and> credit_reservation
        (run sample_readBack empty_ledger
           [(AddCredits ''1e3'' 20 ''purchase'', 1), (Reserve ''1e3'' 10 ''op1'', 2),
            (ReleaseReservation ''op1'' False, 3)])
        ''op1'' = None
   \<and> balance_trace sample_readBack empty_ledger ''user''
        [(AddCredits ''user'' 100 ''purchase'', 1), (Reserve ''user'' 14 ''op1'', 2),
         (ReleaseReservation ''op1'' True, 3), (DeductCredits ''user'' 20 ''final'', 4)]
      = [100, 86, 86, 66]
   \<and> balance_trace sample_readBack empty_ledger ''user''
        [(AddCredits ''user'' 20 ''purchase'', 1), (Reserve ''user'' 10 ''op1'', 2),
         (ReleaseReservation ''op1'' False, 3)]
      = [20, 10, 20]"
  by (simp add: run_def ledger_defs)

text \<open>
  Claim C8. \<open>releaseReservation\<close> fails with \<open>ReservationNotFound\<close> whenever no record
  is stored for the operation id, and that is its only failure. A release that succeeds
  deletes the record, so a second release for the same operation id, with either value of
  \<open>success\<close>, fails with \<open>ReservationNotFound\<close>: a reservation is terminated once.
\<close>

theorem C8_release_not_found:
  "(credit_reservation s operationId = None \<longrightarrow>
      releaseReservation readBack s operationId success = Inl ReservationNotFound)
   \<and> (releaseReservation readBack s operationId success = Inl e \<longrightarrow>
      e = ReservationNotFound \<and> credit_reservation s operationId = None)
   \<and> (releaseReservation readBack s operationId success = Inr s' \<longrightarrow>
      credit_reservation s' operationId = None
      \<and> releaseReservation readBack s' operationId again = Inl ReservationNotFound)"
proof (cases "credit_reservation s operationId")
  case None
  then show ?thesis by (simp add: releaseReservation_none)
next
  case (Some r)
  have "credit_reservation
          (release_pipeline s operationId success (read_reservation readBack r)) operationId = None"
    by (simp add: released_record)
  with Some show ?thesis
    by (auto simp add: releaseReservation_some releaseReservation_none)
qed

theorem C8_release_not_found_witness:
  "credit_reservation empty_ledger ''op1'' = None
   \<and> releaseReservation sample_readBack empty_ledger ''op1'' True = Inl ReservationNotFound
   \<and> releaseReservation sample_readBack
        (reserve_pipeline (fst (addCredits empty_ledger ''user'' 20 ''purchase'' 1)) ''user'' 10 ''op1'' 2)
        ''op1'' False
      = Inr (release_pipeline
          (reserve_pipeline (fst (addCredits empty_ledger ''user'' 20 ''purchase'' 1)) ''user'' 10 ''op1'' 2)
          ''op1'' False \<lparr>res_userId = ''user'', res_amount = 10, res_timestamp = 2\<rparr>)
   \<and> releaseReservation sample_readBack
        (release_pipeline
          (reserve_pipeline (fst (addCredits empty_ledger ''user'' 20 ''purchase'' 1)) ''user'' 10 ''op1'' 2)
          ''op1'' False \<lparr>res_userId = ''user'', res_amount = 10, res_timestamp = 2\<rparr>)
        ''op1'' True
      = Inl ReservationNotFound"
proof -
  let ?s1 = "reserve_pipeline (fst (addCredits empty_ledger ''user'' 20 ''purchase'' 1)) ''user'' 10 ''op1'' 2"
  let ?r = "\<lparr>res_userId = ''user'', res_amount = 10, res_timestamp = 2\<rparr>"
  let ?s2 = "release_pipeline ?s1 ''op1'' False ?r"
  have h1: "credit_reservation empty_ledger ''op1'' = None"
    by (simp add: empty_ledger_def)
  have h2: "releaseReservation sample_readBack ?s1 ''op1'' False = Inr ?s2"
    by (simp add: releaseReservation_def hgetall_def reserve_pipeline_def hset_def
        read_reservation_def sample_readBack_def)
  from C8_release_not_found [where s = empty_ledger and operationId = "''op1''" and success = True
      and readBack = sample_readBack] h1
  have a: "releaseReservation sample_readBack empty_ledger ''op1'' True = Inl ReservationNotFound"
    by blast
  from C8_release_not_found [where s = ?s1 and operationId = "''op1''" and success = False
      and s' = ?s2 and again = True and readBack = sample_readBack] h2
  have b: "releaseReservation sample_readBack ?s2 ''op1'' True = Inl ReservationNotFound"
    by blast
  from h1 h2 a b show ?thesis by simp
qed

subsection \<open>Amounts that are not positive\<close>

text \<open>
  Claim C10. No operation of the ledger rejects an amount that is not positive. For a
  user with a balance \<open>b \<ge> 0\<close> and an amount \<open>\<le> 0\<close>, \<open>deductCredits\<close> and
  \<open>reserveCredits\<close> succeed and leave the balance at \<open>b + |amount|\<close>: raised by
  \<open>|amount|\<close> when the amount is negative. \<open>addCredits\<close> adds the amount whatever its
  sign, so a negative amount lowers the balance.
\<close>

theorem C10_no_amount_validation:
  "(0 \<le> getBalance s userId \<and> amount \<le> 0 \<longrightarrow>
      (case deductCredits s userId amount reason now of
         Inl e \<Rightarrow> False
       | Inr (s', txId) \<Rightarrow> getBalance s' userId = getBalance s userId + \<bar>amount\<bar>)
      \<and> (case reserveCredits s userId amount operationId now of
         Inl e \<Rightarrow> False
       | Inr s' \<Rightarrow> getBalance s' userId = getBalance s userId + \<bar>amount\<bar>))
   \<and> getBalance (fst (addCredits s userId amount reason now)) userId = getBalance s userId + amount"
proof -
  have "(case deductCredits s userId amount reason now of
         Inl e \<Rightarrow> False
       | Inr (s', txId) \<Rightarrow> getBalance s' userId = getBalance s userId + \<bar>amount\<bar>)
      \<and> (case reserveCredits s userId amount operationId now of
         Inl e \<Rightarrow> False
       | Inr s' \<Rightarrow> getBalance s' userId = getBalance s userId + \<bar>amount\<bar>)"
    if h: "0 \<le> getBalance s userId" "amount \<le> 0"
  proof -
    from h have enough: "\<not> getBalance s userId < amount" by simp
    have "getBalance (fst (deduct_pipeline s userId amount reason now)) userId
        = getBalance s userId + \<bar>amount\<bar>"
      using h by (simp add: deduct_pipeline_balance)
    moreover have "getBalance (reserve_pipeline s userId amount operationId now) userId
        = getBalance s userId + \<bar>amount\<bar>"
      using h by (simp add: reserve_pipeline_balance)
    ultimately show ?thesis
      by (simp add: deductCredits_succeeds [OF enough] reserveCredits_succeeds [OF enough]
          case_prod_beta)
  qed
  then show ?thesis by (simp add: addCredits_balance)
qed

theorem C10_no_amount_validation_witness:
  "(0::int) \<le> getBalance (fst (addCredits empty_ledger ''user'' 20 ''purchase'' 1)) ''user''
   \<and> (-5::int) \<le> 0
   \<and> (case deductCredits (fst (addCredits empty_ledger ''user'' 20 ''purchase'' 1)) ''user'' (-5) ''refund'' 2 of
         Inl e \<Rightarrow> False
       | Inr (s', txId) \<Rightarrow> getBalance s' ''user'' = 25)
   \<and> (case reserveCredits (fst (addCredits empty_ledger ''user'' 20 ''purchase'' 1)) ''user'' (-5) ''op1'' 2 of
         Inl e \<Rightarrow> False
       | Inr s' \<Rightarrow> getBalance s' ''user'' = 25)
   \<and> getBalance (fst (addCredits (fst (addCredits empty_ledger ''user'' 20 ''purchase'' 1))
        ''user'' (-5) ''refund'' 2)) ''user'' = 15"
proof -
  let ?s = "fst (addCredits empty_ledger ''user'' 20 ''purchase'' 1)"
  have b: "getBalance ?s ''user'' = 20"
    by (simp add: ledger_defs)
  from C10_no_amount_validation [of ?s "''user''" "-5" "''refund''" 2 "''op1''"]
  show ?thesis by (auto simp add: b split: sum.splits)
qed

subsection \<open>Non-negative balances along a sequence of calls\<close>

lemma exec_nonneg:
  assumes res: "holds_nonneg s" and bal: "0 \<le> getBalance s u" and pos: "positive_amount (fst c)"
  shows "0 \<le> getBalance (exec readBack s c) u \<and> holds_nonneg (exec readBack s c)"
proof -
  obtain cl now where c: "c = (cl, now)" by (cases c)
  show ?thesis
  proof (cases cl)
    case (AddCredits v a reason)
    with pos c have "0 < a" by simp
    with bal res show ?thesis
      by (auto simp add: c AddCredits addCredits_balance holds_nonneg_def addCredits_reservations)
  next
    case (DeductCredits v a reason)
    show ?thesis
    proof (cases "getBalance s v < a")
      case True
      with bal res show ?thesis
        by (simp add: c DeductCredits deductCredits_fails)
    next
      case False
      with bal res show ?thesis
        by (simp add: c DeductCredits deductCredits_succeeds case_prod_beta
            deduct_pipeline_balance holds_nonneg_def deduct_pipeline_reservations)
    qed
  next
    case (Reserve v a opn)
    with pos c have a: "0 < a" by simp
    show ?thesis
    proof (cases "getBalance s v < a")
      case True
      with bal res show ?thesis
        by (simp add: c Reserve reserveCredits_fails)
    next
      case False
      with bal res a show ?thesis
        by (simp add: c Reserve reserveCredits_succeeds reserve_pipeline_balance
            holds_nonneg_def reserve_pipeline_record)
    qed
  next
    case (ReleaseReservation opn success)
    show ?thesis
    proof (cases "credit_reservation s opn")
      case None
      with bal res show ?thesis
        by (simp add: c ReleaseReservation releaseReservation_none)
    next
      case (Some r)
      with res have "0 \<le> res_amount r" by (auto simp add: holds_nonneg_def)
      with bal res Some show ?thesis
        by (auto simp add: c ReleaseReservation releaseReservation_some released_balance
            holds_nonneg_def released_record read_reservation_fields)
    qed
  qed
qed

lemma balance_trace_nonneg:
  "holds_nonneg s \<Longrightarrow> 0 \<le> getBalance s u \<Longrightarrow> \<forall>c\<in>set calls. positive_amount (fst c) \<Longrightarrow>
   \<forall>b\<in>set (balance_trace readBack s u calls). 0 \<le> b"
proof (induction calls arbitrary: s)
  case Nil
  then show ?case by simp
next
  case (Cons c calls)
  from Cons.prems have "positive_amount (fst c)" by simp
  from exec_nonneg [OF Cons.prems(1) Cons.prems(2) this]
  have now: "0 \<le> getBalance (exec readBack s c) u" and res: "holds_nonneg (exec readBack s c)"
    by simp_all
  from Cons.prems have "\<forall>c\<in>set calls. positive_amount (fst c)" by simp
  from Cons.IH [OF res now this] now show ?case by simp
qed

subsection \<open>The transaction log against the balance\<close>

lemma ledger_sum_logged:
  assumes tx: "credit_tx s' = hset (credit_tx s) txId tx"
    and hist: "credit_history s' = lpush (credit_history s) v txId"
    and fresh: "txId \<notin> set (credit_history s u)"
  shows "ledger_sum s' u = (if v = u then tx_amount tx else 0) + ledger_sum s u"
proof -
  have same: "map (recorded_amount s') (credit_history s u) = map (recorded_amount s) (credit_history s u)"
  proof (rule map_cong [OF refl])
    fix x assume "x \<in> set (credit_history s u)"
    with fresh have "x \<noteq> txId" by auto
    then show "recorded_amount s' x = recorded_amount s x"
      by (simp add: recorded_amount_def tx hset_def)
  qed
  have new: "recorded_amount s' txId = tx_amount tx"
    by (simp add: recorded_amount_def tx hset_def)
  show ?thesis
    by (simp add: ledger_sum_def hist lpush_def same new)
qed

lemma exec_logged:
  assumes logs: "logs_transaction cl" and fresh: "toString now \<notin> set (credit_history s u)"
  shows "ledger_sum (exec readBack s (cl, now)) u - getBalance (exec readBack s (cl, now)) u
           = ledger_sum s u - getBalance s u
         \<and> set (credit_history (exec readBack s (cl, now)) u)
             \<subseteq> insert (toString now) (set (credit_history s u))"
proof (cases cl)
  case (AddCredits v a reason)
  let ?s' = "fst (addCredits s v a reason now)"
  have "ledger_sum ?s' u = (if v = u then a else 0) + ledger_sum s u"
    by (subst ledger_sum_logged [where s = s and txId = "toString now" and v = v
          and tx = "\<lparr>tx_userId = v, tx_amount = a, tx_type = ''add'', tx_reason = reason,
                     tx_timestamp = now\<rparr>"])
      (simp_all add: addCredits_def Let_def fresh)
  moreover have "set (credit_history ?s' u) \<subseteq> insert (toString now) (set (credit_history s u))"
    by (auto simp add: addCredits_def Let_def lpush_def)
  ultimately show ?thesis
    by (simp add: AddCredits addCredits_balance)
next
  case (DeductCredits v a reason)
  show ?thesis
  proof (cases "getBalance s v < a")
    case True
    then show ?thesis
      by (auto simp add: DeductCredits deductCredits_fails)
  next
    case False
    let ?s' = "fst (deduct_pipeline s v a reason now)"
    have "ledger_sum ?s' u = (if v = u then - a else 0) + ledger_sum s u"
      by (subst ledger_sum_logged [where s = s and txId = "toString now" and v = v
            and tx = "\<lparr>tx_userId = v, tx_amount = - a, tx_type = ''deduct'', tx_reason = reason,
                       tx_timestamp = now\<rparr>"])
        (simp_all add: deduct_pipeline_def Let_def fresh)
    moreover have "set (credit_history ?s' u) \<subseteq> insert (toString now) (set (credit_history s u))"
      by (auto simp add: deduct_pipeline_def Let_def lpush_def)
    ultimately show ?thesis
      using False
      by (simp add: DeductCredits deductCredits_succeeds case_prod_beta deduct_pipeline_balance)
  qed
next
  case (Reserve v a opn)
  with logs show ?thesis by simp
next
  case (ReleaseReservation opn success)
  with logs show ?thesis by simp
qed

lemma run_Cons: "run readBack s (c # calls) = run readBack (exec readBack s c) calls"
  by (simp add: run_def)

lemma run_logged:
  "\<forall>c\<in>set calls. logs_transaction (fst c) \<Longrightarrow> distinct (map snd calls) \<Longrightarrow>
   \<forall>c\<in>set calls. toString (snd c) \<notin> set (credit_history s u) \<Longrightarrow>
   ledger_sum (run readBack s calls) u - getBalance (run readBack s calls) u
     = ledger_sum s u - getBalance s u"
proof (induction calls arbitrary: s)
  case Nil
  then show ?case by (simp add: run_def)
next
  case (Cons c calls)
  obtain cl now where c: "c = (cl, now)" by (cases c)
  from Cons.prems c have logs: "logs_transaction cl"
    and fresh: "toString now \<notin> set (credit_history s u)" by simp_all
  note step = exec_logged [OF logs fresh]
  have later: "\<forall>d\<in>set calls. toString (snd d) \<notin> set (credit_history (exec readBack s c) u)"
  proof
    fix d assume d: "d \<in> set calls"
    with Cons.prems(3) have old: "toString (snd d) \<notin> set (credit_history s u)" by simp
    from d Cons.prems(2) c have "snd d \<noteq> now" by auto
    then have "toString (snd d) \<noteq> toString now" using toString_inj by blast
    with old step show "toString (snd d) \<notin> set (credit_history (exec readBack s c) u)"
      unfolding c by blast
  qed
  from Cons.prems have "\<forall>c\<in>set calls. logs_transaction (fst c)" "distinct (map snd calls)"
    by simp_all
  from Cons.IH [OF this later] step show ?case
    by (simp add: run_Cons c)
qed

lemma same_millisecond_collision:
  "ledger_sum (run sample_readBack empty_ledger
      [(AddCredits ''user'' 5 ''purchase'', 7), (DeductCredits ''user'' 3 ''crawl'', 7)]) ''user'' = - 6
   \<and> getBalance (run sample_readBack empty_ledger
      [(AddCredits ''user'' 5 ''purchase'', 7), (DeductCredits ''user'' 3 ''crawl'', 7)]) ''user'' = 2"
  by (simp add: run_def ledger_sum_def recorded_amount_def ledger_defs)

text \<open>
  Claim C1 as stated fails: \<open>reserveCredits\<close> lowers the balance and appends no
  transaction, so after a purchase of 10 and a reservation of 4 the recorded amounts sum
  to 10 while the balance is 6.
\<close>

theorem C1_reserve_unlogged_counterexample:
  "ledger_sum (run sample_readBack empty_ledger
      [(AddCredits ''user'' 10 ''purchase'', 1), (Reserve ''user'' 4 ''op1'', 2)]) ''user'' = 10
   \<and> getBalance (run sample_readBack empty_ledger
      [(AddCredits ''user'' 10 ''purchase'', 1), (Reserve ''user'' 4 ''op1'', 2)]) ''user'' = 6"
  by (simp add: run_def ledger_sum_def recorded_amount_def ledger_defs)

text \<open>
  Claim C1, amended. Let a user start with balance 0 and an empty history, in a store
  whose pending reservations hold non-negative amounts, and let any sequence of
  \<open>addCredits\<close>, \<open>deductCredits\<close>, \<open>reserveCredits\<close> and \<open>releaseReservation\<close> calls run
  one after the other, each amount positive. Then the user's balance is non-negative after
  every call. The sum of the recorded transaction amounts equals the balance when the
  sequence consists of \<open>addCredits\<close> and \<open>deductCredits\<close> calls only and no two calls
  read the same millisecond from the clock: reservations and releases move the balance
  without a transaction, and the transaction id is the clock reading.
\<close>

theorem C1_balance_invariant:
  assumes "getBalance s0 userId = 0" and "credit_history s0 userId = []"
    and "holds_nonneg s0" and "\<forall>c\<in>set calls. positive_amount (fst c)"
  shows "(\<forall>b\<in>set (balance_trace readBack s0 userId calls). 0 \<le> b)
    \<and> ((\<forall>c\<in>set calls. logs_transaction (fst c)) \<and> distinct (map snd calls) \<longrightarrow>
         ledger_sum (run readBack s0 calls) userId = getBalance (run readBack s0 calls) userId)"
proof
  from assms show "\<forall>b\<in>set (balance_trace readBack s0 userId calls). 0 \<le> b"
    by (intro balance_trace_nonneg) simp_all
next
  show "(\<forall>c\<in>set calls. logs_transaction (fst c)) \<and> distinct (map snd calls) \<longrightarrow>
         ledger_sum (run readBack s0 calls) userId = getBalance (run readBack s0 calls) userId"
  proof
    assume h: "(\<forall>c\<in>set calls. logs_transaction (fst c)) \<and> distinct (map snd calls)"
    from assms(2) have "\<forall>c\<in>set calls. toString (snd c) \<notin> set (credit_history s0 userId)"
      by simp
    with h have "ledger_sum (run readBack s0 calls) userId - getBalance (run readBack s0 calls) userId
        = ledger_sum s0 userId - getBalance s0 userId"
      by (intro run_logged) simp_all
    with assms(1,2) show "ledger_sum (run readBack s0 calls) userId = getBalance (run readBack s0 calls) userId"
      by (simp add: ledger_sum_def)
  qed
qed

theorem C1_balance_invariant_witness:
  "getBalance empty_ledger ''user'' = 0 \<and> credit_history empty_ledger ''user'' = []
   \<and> holds_nonneg empty_ledger
   \<and> list_all (\<lambda>c. positive_amount (fst c))
       [(AddCredits ''user'' 10 ''purchase'', 1::int), (Reserve ''user'' 4 ''op1'', 2),
        (DeductCredits ''user'' 6 ''crawl'', 3), (ReleaseReservation ''op1'' False, 4)]
   \<and> list_all (\<lambda>b. 0 \<le> b) (balance_trace sample_readBack empty_ledger ''user''
       [(AddCredits ''user'' 10 ''purchase'', 1), (Reserve ''user'' 4 ''op1'', 2),
        (DeductCredits ''user'' 6 ''crawl'', 3), (ReleaseReservation ''op1'' False, 4)])
   \<and> list_all (\<lambda>c. positive_amount (fst c) \<and> logs_transaction (fst c))
       [(AddCredits ''user'' 10 ''purchase'', 1::int), (DeductCredits ''user'' 6 ''crawl'', 3)]
   \<and> distinct (map snd [(AddCredits ''user'' 10 ''purchase'', 1::int), (DeductCredits ''user'' 6 ''crawl'', 3)])
   \<and> ledger_sum (run sample_readBack empty_ledger
        [(AddCredits ''user'' 10 ''purchase'', 1), (DeductCredits ''user'' 6 ''crawl'', 3)]) ''user''
      = getBalance (run sample_readBack empty_ledger
        [(AddCredits ''user'' 10 ''purchase'', 1), (DeductCredits ''user'' 6 ''crawl'', 3)]) ''user''"
proof -
  have b: "getBalance empty_ledger ''user'' = 0" and h: "credit_history empty_ledger ''user'' = []"
    and r: "holds_nonneg empty_ledger"
    by (simp_all add: empty_ledger_def getBalance_def holds_nonneg_def)
  let ?all = "[(AddCredits ''user'' 10 ''purchase'', 1::int), (Reserve ''user'' 4 ''op1'', 2),
        (DeductCredits ''user'' 6 ''crawl'', 3), (ReleaseReservation ''op1'' False, 4)]"
  let ?logged = "[(AddCredits ''user'' 10 ''purchase'', 1::int), (DeductCredits ''user'' 6 ''crawl'', 3)]"
  have p1: "\<forall>c\<in>set ?all. positive_amount (fst c)" by simp
  have p2: "\<forall>c\<in>set ?logged. positive_amount (fst c)" by simp
  have l2: "(\<forall>c\<in>set ?logged. logs_transaction (fst c)) \<and> distinct (map snd ?logged)" by simp
  from C1_balance_invariant [OF b h r p1, where readBack = sample_readBack, THEN conjunct1]
  have t1: "list_all (\<lambda>b. 0 \<le> b) (balance_trace sample_readBack empty_ledger ''user'' ?all)"
    by (simp only: list_all_iff)
  from C1_balance_invariant [OF b h r p2, where readBack = sample_readBack, THEN conjunct2] l2
  have t2: "ledger_sum (run sample_readBack empty_ledger ?logged) ''user'' = getBalance (run sample_readBack empty_ledger ?logged) ''user''"
    by blast
  from b h r t1 t2 show ?thesis by simp
qed

subsection \<open>Transaction history\<close>

lemma lrange_prefix: "0 \<le> stop \<Longrightarrow> lrange xs 0 stop = take (nat stop + 1) xs"
  by (auto simp add: lrange_def Let_def min_def nat_add_distrib)

lemma lrange_whole: "lrange xs 0 (- 1) = xs"
  by (simp add: lrange_def Let_def)

lemma history_ids:
  "1 \<le> limit \<Longrightarrow>
   map fst (getTransactionHistory readBack s userId limit) = take (nat limit) (credit_history s userId)"
proof -
  assume l: "1 \<le> limit"
  then have "lrange (credit_history s userId) 0 (limit - 1) = take (nat limit) (credit_history s userId)"
    by (simp add: lrange_prefix nat_diff_distrib)
  then show ?thesis
    by (simp add: getTransactionHistory_def Let_def comp_def)
qed

lemma history_length:
  "1 \<le> limit \<Longrightarrow> int (length (getTransactionHistory readBack s userId limit)) \<le> limit"
proof -
  assume l: "1 \<le> limit"
  have "length (getTransactionHistory readBack s userId limit)
      = length (map fst (getTransactionHistory readBack s userId limit))" by simp
  also have "\<dots> = length (take (nat limit) (credit_history s userId))"
    by (simp only: history_ids [OF l])
  finally show ?thesis using l by simp
qed

lemma history_most_recent_first:
  "1 \<le> limit \<Longrightarrow>
   map fst (getTransactionHistory readBack (fst (addCredits s userId amount reason now)) userId limit)
     = toString now # take (nat limit - 1) (credit_history s userId)"
proof -
  assume l: "1 \<le> limit"
  then obtain k where k: "nat limit = Suc k" by (cases "nat limit") auto
  have "credit_history (fst (addCredits s userId amount reason now)) userId
      = toString now # credit_history s userId"
    by (simp add: addCredits_def Let_def lpush_def)
  with k show ?thesis by (simp add: history_ids [OF l])
qed

lemma lrange_from_end:
  "stop < 0 \<Longrightarrow> lrange xs 0 stop = take (nat (int (length xs) + stop + 1)) xs"
  by (auto simp add: lrange_def Let_def)

lemma history_nonpositive_limit:
  "limit \<le> 0 \<Longrightarrow>
   map fst (getTransactionHistory readBack s userId limit)
     = take (nat (int (length (credit_history s userId)) + limit)) (credit_history s userId)"
proof -
  assume "limit \<le> 0"
  then have "lrange (credit_history s userId) 0 (limit - 1)
      = take (nat (int (length (credit_history s userId)) + limit)) (credit_history s userId)"
    by (simp add: lrange_from_end)
  then show ?thesis
    by (simp add: getTransactionHistory_def Let_def comp_def)
qed

lemma history_limit_zero: "map fst (getTransactionHistory readBack s userId 0) = credit_history s userId"
  by (simp add: getTransactionHistory_def lrange_whole comp_def Let_def)

lemma history_entries:
  "1 \<le> limit \<Longrightarrow>
   getTransactionHistory readBack s userId limit
     = map (\<lambda>txId. (txId, map_option (read_transaction readBack) (credit_tx s txId)))
         (take (nat limit) (credit_history s userId))"
proof -
  assume l: "1 \<le> limit"
  then have "lrange (credit_history s userId) 0 (limit - 1) = take (nat limit) (credit_history s userId)"
    by (simp add: lrange_prefix nat_diff_distrib)
  then show ?thesis
    by (simp add: getTransactionHistory_def Let_def hgetall_def)
qed

lemma history_newest:
  assumes l: "1 \<le> limit"
    and tx: "credit_tx s' = hset (credit_tx s) txId tx"
    and hist: "credit_history s' = lpush (credit_history s) userId txId"
  shows "hd (getTransactionHistory readBack s' userId limit)
           = (txId, Some (read_transaction readBack tx))
    \<and> map fst (tl (getTransactionHistory readBack s' userId limit))
        = take (nat limit - 1) (credit_history s userId)"
proof -
  from l obtain k where k: "nat limit = Suc k" by (cases "nat limit") auto
  have "credit_history s' userId = txId # credit_history s userId"
    by (simp add: hist lpush_def)
  with k show ?thesis
    by (simp add: history_entries [OF l] tx hset_def comp_def)
qed

text \<open>
  Claim C9 as stated fails at the limit 0. \<open>getTransactionHistory\<close> asks for the range
  from 0 to \<open>limit - 1\<close>; at \<open>limit = 0\<close> the end of the range is \<open>-1\<close>, which
  \<^verbatim>\<open>LRANGE\<close> reads as the last element, so the whole history comes back: two entries
  after two purchases, where the bound asks for none. At \<open>limit = -1\<close> the newer of the two
  comes back.
\<close>

theorem C9_limit_zero_counterexample:
  "map fst (getTransactionHistory sample_readBack
       (run sample_readBack empty_ledger
          [(AddCredits ''user'' 5 ''first'', 1), (AddCredits ''user'' 7 ''second'', 2)])
       ''user'' 0) = [toString 2, toString 1]
   \<and> \<not> int (length (getTransactionHistory sample_readBack
       (run sample_readBack empty_ledger
          [(AddCredits ''user'' 5 ''first'', 1), (AddCredits ''user'' 7 ''second'', 2)])
       ''user'' 0)) \<le> 0
   \<and> map fst (getTransactionHistory sample_readBack
       (run sample_readBack empty_ledger
          [(AddCredits ''user'' 5 ''first'', 1), (AddCredits ''user'' 7 ''second'', 2)])
       ''user'' (- 1)) = [toString 2]"
proof -
  let ?s = "run sample_readBack empty_ledger
          [(AddCredits ''user'' 5 ''first'', 1), (AddCredits ''user'' 7 ''second'', 2)]"
  have hist: "credit_history ?s ''user'' = [toString 2, toString 1]"
    by (simp add: run_def addCredits_def Let_def lpush_def empty_ledger_def)
  have ids: "map fst (getTransactionHistory sample_readBack ?s ''user'' 0) = [toString 2, toString 1]"
    by (simp add: history_limit_zero hist)
  have "length (map fst (getTransactionHistory sample_readBack ?s ''user'' 0)) = 2"
    by (simp only: ids) simp
  then have len: "\<not> int (length (getTransactionHistory sample_readBack ?s ''user'' 0)) \<le> 0"
    by simp
  have "map fst (getTransactionHistory sample_readBack ?s ''user'' (- 1)) = [toString 2]"
    by (simp add: history_nonpositive_limit hist)
  with ids len show ?thesis by simp
qed

text \<open>
  Claim C9, amended. For every limit of at least 1, \<open>getTransactionHistory\<close> returns at
  most \<open>limit\<close> entries: the first \<open>limit\<close> ids of the user's history list, each with
  the transaction stored under it, as the client reads it back. The list is kept newest
  first: right after an
  \<open>addCredits\<close> or a successful \<open>deductCredits\<close> the first entry returned is the
  transaction just appended, followed by the ids that led the history before. (A limit
  below 1 is left out: there the range handed to \<^verbatim>\<open>LRANGE\<close> ends at a negative
  index.)
\<close>

theorem C9_history_newest_first:
  assumes "1 \<le> limit"
  shows "int (length (getTransactionHistory readBack s userId limit)) \<le> limit
    \<and> getTransactionHistory readBack s userId limit
        = map (\<lambda>txId. (txId, map_option (read_transaction readBack) (credit_tx s txId)))
            (take (nat limit) (credit_history s userId))
    \<and> hd (getTransactionHistory readBack (fst (addCredits s userId amount reason now)) userId limit)
        = (toString now,
           Some \<lparr>tx_userId = readBack userId, tx_amount = amount, tx_type = readBack ''add'',
                 tx_reason = readBack reason, tx_timestamp = now\<rparr>)
    \<and> map fst (tl (getTransactionHistory readBack (fst (addCredits s userId amount reason now))
          userId limit))
        = take (nat limit - 1) (credit_history s userId)
    \<and> hd (getTransactionHistory readBack (fst (deduct_pipeline s userId amount reason now)) userId limit)
        = (toString now,
           Some \<lparr>tx_userId = readBack userId, tx_amount = - amount, tx_type = readBack ''deduct'',
                 tx_reason = readBack reason, tx_timestamp = now\<rparr>)
    \<and> map fst (tl (getTransactionHistory readBack (fst (deduct_pipeline s userId amount reason now))
          userId limit))
        = take (nat limit - 1) (credit_history s userId)"
proof -
  note l = assms
  have added: "credit_tx (fst (addCredits s userId amount reason now))
        = hset (credit_tx s) (toString now)
            \<lparr>tx_userId = userId, tx_amount = amount, tx_type = ''add'',
             tx_reason = reason, tx_timestamp = now\<rparr>"
      "credit_history (fst (addCredits s userId amount reason now))
        = lpush (credit_history s) userId (toString now)"
    by (simp_all add: addCredits_def Let_def)
  have deducted: "credit_tx (fst (deduct_pipeline s userId amount reason now))
        = hset (credit_tx s) (toString now)
            \<lparr>tx_userId = userId, tx_amount = - amount, tx_type = ''deduct'',
             tx_reason = reason, tx_timestamp = now\<rparr>"
      "credit_history (fst (deduct_pipeline s userId amount reason now))
        = lpush (credit_history s) userId (toString now)"
    by (simp_all add: deduct_pipeline_def Let_def)
  from history_length [OF l] history_entries [OF l]
    history_newest [OF l added] history_newest [OF l deducted]
  show ?thesis by (simp add: read_transaction_def)
qed

theorem C9_history_newest_first_witness:
  "(1::int) \<le> 2
   \<and> int (length (getTransactionHistory sample_readBack
        (run sample_readBack empty_ledger
           [(AddCredits ''user'' 5 ''first'', 1), (AddCredits ''user'' 7 ''second'', 2),
            (AddCredits ''user'' 9 ''third'', 3)])
        ''user'' 2)) \<le> 2
   \<and> hd (getTransactionHistory sample_readBack
        (fst (addCredits
           (run sample_readBack empty_ledger
              [(AddCredits ''user'' 5 ''first'', 1), (AddCredits ''user'' 7 ''second'', 2)])
           ''user'' 9 ''third'' 3))
        ''user'' 2)
      = (toString 3,
         Some \<lparr>tx_userId = ''user'', tx_amount = 9, tx_type = ''add'',
               tx_reason = ''third'', tx_timestamp = 3\<rparr>)
   \<and> map fst (tl (getTransactionHistory sample_readBack
        (fst (addCredits
           (run sample_readBack empty_ledger
              [(AddCredits ''user'' 5 ''first'', 1), (AddCredits ''user'' 7 ''second'', 2)])
           ''user'' 9 ''third'' 3))
        ''user'' 2))
      = [toString 2]"
proof -
  let ?s = "run sample_readBack empty_ledger
              [(AddCredits ''user'' 5 ''first'', 1), (AddCredits ''user'' 7 ''second'', 2)]"
  have l: "(1::int) \<le> 2" by simp
  have hist: "credit_history ?s ''user'' = [toString 2, toString 1]"
    by (simp add: run_def addCredits_def Let_def lpush_def empty_ledger_def)
  note first = C9_history_newest_first [OF l, where readBack = sample_readBack and
      s = "run sample_readBack empty_ledger
           [(AddCredits ''user'' 5 ''first'', 1), (AddCredits ''user'' 7 ''second'', 2),
            (AddCredits ''user'' 9 ''third'', 3)]" and userId = "''user''", THEN conjunct1]
  note second = C9_history_newest_first [OF l, where readBack = sample_readBack and s = ?s
      and userId = "''user''" and amount = 9 and reason = "''third''" and now = 3]
  from second have
    "hd (getTransactionHistory sample_readBack (fst (addCredits ?s ''user'' 9 ''third'' 3)) ''user'' 2)
      = (toString 3,
         Some \<lparr>tx_userId = sample_readBack ''user'', tx_amount = 9,
               tx_type = sample_readBack ''add'', tx_reason = sample_readBack ''third'',
               tx_timestamp = 3\<rparr>)"
    and "map fst (tl (getTransactionHistory sample_readBack
           (fst (addCredits ?s ''user'' 9 ''third'' 3)) ''user'' 2))
      = take (nat 2 - 1) (credit_history ?s ''user'')"
    by blast+
  with l first hist show ?thesis by (simp add: sample_readBack_def)
qed

subsection \<open>Interleaved deductions\<close>

lemma deductCredits_two_steps:
  "fst (step s (DeductReq userId amount reason, ReadBalance (getBalance s userId)) now)
     = exec readBack s (DeductCredits userId amount reason, now)"
  by (simp add: deductCredits_def Let_def case_prod_beta)

lemma reserveCredits_two_steps:
  "fst (step s (ReserveReq userId amount operationId, ReadBalance (getBalance s userId)) now)
     = exec readBack s (Reserve userId amount operationId, now)"
  by (simp add: reserveCredits_def Let_def)

lemma one_after_the_other:
  "map snd (snd (run_schedule (fst (addCredits empty_ledger ''user'' 10 ''purchase'' 1))
       [(DeductReq ''user'' 10 ''crawl a'', Called), (DeductReq ''user'' 10 ''crawl b'', Called)]
       [(0, 2), (0, 3), (1, 4), (1, 5)]))
     = [Returned, Threw InsufficientCredits]
   \<and> getBalance (fst (run_schedule (fst (addCredits empty_ledger ''user'' 10 ''purchase'' 1))
       [(DeductReq ''user'' 10 ''crawl a'', Called), (DeductReq ''user'' 10 ''crawl b'', Called)]
       [(0, 2), (0, 3), (1, 4), (1, 5)])) ''user'' = 0"
  by (simp add: ledger_defs)

text \<open>
  Claim C2 as stated fails. \<open>deductCredits\<close> reads the balance with \<open>getBalance\<close>,
  compares the value it read with the amount, and then sends an unconditional
  \<^verbatim>\<open>DECRBY\<close>; the same holds for \<open>reserveCredits\<close>. With a balance of 10, two
  deductions of 10 whose reads both come before either pipeline both pass the check and
  both return, and the balance ends at \<open>-10\<close>; two reservations of 10 do the same.
\<close>

theorem C2_stale_balance_counterexample:
  "map snd (snd (run_schedule (fst (addCredits empty_ledger ''user'' 10 ''purchase'' 1))
       [(DeductReq ''user'' 10 ''crawl a'', Called), (DeductReq ''user'' 10 ''crawl b'', Called)]
       [(0, 2), (1, 2), (0, 3), (1, 4)]))
     = [Returned, Returned]
   \<and> getBalance (fst (run_schedule (fst (addCredits empty_ledger ''user'' 10 ''purchase'' 1))
       [(DeductReq ''user'' 10 ''crawl a'', Called), (DeductReq ''user'' 10 ''crawl b'', Called)]
       [(0, 2), (1, 2), (0, 3), (1, 4)])) ''user'' = - 10
   \<and> map snd (snd (run_schedule (fst (addCredits empty_ledger ''user'' 10 ''purchase'' 1))
       [(ReserveReq ''user'' 10 ''op1'', Called), (ReserveReq ''user'' 10 ''op2'', Called)]
       [(0, 2), (1, 2), (0, 3), (1, 4)]))
     = [Returned, Returned]
   \<and> getBalance (fst (run_schedule (fst (addCredits empty_ledger ''user'' 10 ''purchase'' 1))
       [(ReserveReq ''user'' 10 ''op1'', Called), (ReserveReq ''user'' 10 ''op2'', Called)]
       [(0, 2), (1, 2), (0, 3), (1, 4)])) ''user'' = - 10"
  by (simp add: ledger_defs)

text \<open>
  Claim C2, amended. \<open>deductCredits\<close>, and likewise \<open>reserveCredits\<close>, reaches the
  store twice. The first step reads the balance and changes nothing. The second step
  compares the balance that was read, not the stored one, with the amount: it throws
  \<open>InsufficientCredits\<close> when the balance read is below the amount, and otherwise lowers
  the stored balance by the amount without a condition. When the second step follows the
  read on the same store, the two steps are the call of the sequential model, and a call
  that returns leaves the balance it read minus the amount, which is not negative.
\<close>

theorem C2_check_then_decrement:
  "step s (DeductReq userId amount reason, Called) now
     = (s, DeductReq userId amount reason, ReadBalance (getBalance s userId))
   \<and> step s (ReserveReq userId amount operationId, Called) now
     = (s, ReserveReq userId amount operationId, ReadBalance (getBalance s userId))
   \<and> (balance < amount \<longrightarrow>
        step s' (DeductReq userId amount reason, ReadBalance balance) now'
          = (s', DeductReq userId amount reason, Threw InsufficientCredits)
        \<and> step s' (ReserveReq userId amount operationId, ReadBalance balance) now'
          = (s', ReserveReq userId amount operationId, Threw InsufficientCredits))
   \<and> (\<not> balance < amount \<longrightarrow>
        snd (snd (step s' (DeductReq userId amount reason, ReadBalance balance) now')) = Returned
        \<and> getBalance (fst (step s' (DeductReq userId amount reason, ReadBalance balance) now')) userId
            = getBalance s' userId - amount
        \<and> snd (snd (step s' (ReserveReq userId amount operationId, ReadBalance balance) now'))
            = Returned
        \<and> getBalance (fst (step s' (ReserveReq userId amount operationId, ReadBalance balance) now'))
              userId
            = getBalance s' userId - amount)
   \<and> fst (step s (DeductReq userId amount reason, ReadBalance (getBalance s userId)) now)
       = exec readBack s (DeductCredits userId amount reason, now)
   \<and> fst (step s (ReserveReq userId amount operationId, ReadBalance (getBalance s userId)) now)
       = exec readBack s (Reserve userId amount operationId, now)
   \<and> (\<forall>s1 txId. deductCredits s userId amount reason now = Inr (s1, txId) \<longrightarrow>
        getBalance s1 userId = getBalance s userId - amount \<and> 0 \<le> getBalance s1 userId)
   \<and> (\<forall>s1. reserveCredits s userId amount operationId now = Inr s1 \<longrightarrow>
        getBalance s1 userId = getBalance s userId - amount \<and> 0 \<le> getBalance s1 userId)"
  (is "?read_d \<and> ?read_r \<and> ?throw \<and> ?decr \<and> ?seq_d \<and> ?seq_r \<and> ?safe_d \<and> ?safe_r")
proof -
  have read: ?read_d ?read_r by simp_all
  have throw: ?throw by simp
  have decr: ?decr
    by (simp add: deduct_pipeline_balance reserve_pipeline_balance)
  have seq: ?seq_d ?seq_r
    by (rule deductCredits_two_steps, rule reserveCredits_two_steps)
  have safe_d: ?safe_d
  proof (intro allI impI)
    fix s1 txId
    assume ok: "deductCredits s userId amount reason now = Inr (s1, txId)"
    then have enough: "\<not> getBalance s userId < amount"
      by (auto simp add: deductCredits_def Let_def split: if_splits)
    with ok have "s1 = fst (deduct_pipeline s userId amount reason now)"
      by (simp add: deductCredits_succeeds)
    with enough show "getBalance s1 userId = getBalance s userId - amount \<and> 0 \<le> getBalance s1 userId"
      by (simp add: deduct_pipeline_balance)
  qed
  have safe_r: ?safe_r
  proof (intro allI impI)
    fix s1
    assume ok: "reserveCredits s userId amount operationId now = Inr s1"
    then have enough: "\<not> getBalance s userId < amount"
      by (auto simp add: reserveCredits_def Let_def split: if_splits)
    with ok have "s1 = reserve_pipeline s userId amount operationId now"
      by (simp add: reserveCredits_succeeds)
    with enough show "getBalance s1 userId = getBalance s userId - amount \<and> 0 \<le> getBalance s1 userId"
      by (simp add: reserve_pipeline_balance)
  qed
  from read throw decr seq safe_d safe_r show ?thesis by blast
qed

theorem C2_check_then_decrement_witness:
  "(3::int) < 10
   \<and> step (fst (addCredits empty_ledger ''user'' 20 ''purchase'' 1))
        (DeductReq ''user'' 10 ''crawl'', ReadBalance 3) 2
      = (fst (addCredits empty_ledger ''user'' 20 ''purchase'' 1),
         DeductReq ''user'' 10 ''crawl'', Threw InsufficientCredits)
   \<and> \<not> (20::int) < 10
   \<and> snd (snd (step (fst (addCredits empty_ledger ''user'' 5 ''purchase'' 1))
        (DeductReq ''user'' 10 ''crawl'', ReadBalance 20) 2)) = Returned
   \<and> getBalance (fst (step (fst (addCredits empty_ledger ''user'' 5 ''purchase'' 1))
        (DeductReq ''user'' 10 ''crawl'', ReadBalance 20) 2)) ''user'' = - 5
   \<and> deductCredits (fst (addCredits empty_ledger ''user'' 20 ''purchase'' 1)) ''user'' 10 ''crawl'' 2
      = Inr (deduct_pipeline (fst (addCredits empty_ledger ''user'' 20 ''purchase'' 1))
               ''user'' 10 ''crawl'' 2)
   \<and> getBalance (fst (deduct_pipeline (fst (addCredits empty_ledger ''user'' 20 ''purchase'' 1))
               ''user'' 10 ''crawl'' 2)) ''user'' = 10
   \<and> reserveCredits (fst (addCredits empty_ledger ''user'' 20 ''purchase'' 1)) ''user'' 10 ''op1'' 2
      = Inr (reserve_pipeline (fst (addCredits empty_ledger ''user'' 20 ''purchase'' 1))
               ''user'' 10 ''op1'' 2)
   \<and> getBalance (reserve_pipeline (fst (addCredits empty_ledger ''user'' 20 ''purchase'' 1))
               ''user'' 10 ''op1'' 2) ''user'' = 10"
proof -
  let ?s20 = "fst (addCredits empty_ledger ''user'' 20 ''purchase'' 1)"
  let ?s5 = "fst (addCredits empty_ledger ''user'' 5 ''purchase'' 1)"
  have b: "getBalance ?s20 ''user'' = 20" "getBalance ?s5 ''user'' = 5"
    by (simp_all add: addCredits_balance) (simp_all add: getBalance_def empty_ledger_def)
  have low: "(3::int) < 10" and high: "\<not> (20::int) < 10" by simp_all
  note thrown = C2_check_then_decrement [where balance = 3 and amount = 10 and s' = ?s20
      and userId = "''user''" and reason = "''crawl''" and now' = 2,
      THEN conjunct2, THEN conjunct2, THEN conjunct1, THEN mp, OF low, THEN conjunct1]
  note stale = C2_check_then_decrement [where balance = 20 and amount = 10 and s' = ?s5
      and userId = "''user''" and reason = "''crawl''" and now' = 2,
      THEN conjunct2, THEN conjunct2, THEN conjunct2, THEN conjunct1, THEN mp, OF high]
  have d: "deductCredits ?s20 ''user'' 10 ''crawl'' 2
      = Inr (deduct_pipeline ?s20 ''user'' 10 ''crawl'' 2)"
    by (simp add: deductCredits_def b)
  have r: "reserveCredits ?s20 ''user'' 10 ''op1'' 2
      = Inr (reserve_pipeline ?s20 ''user'' 10 ''op1'' 2)"
    by (simp add: reserveCredits_def b)
  note general = C2_check_then_decrement [where s = ?s20 and amount = 10
      and userId = "''user''" and reason = "''crawl''" and operationId = "''op1''" and now = 2]
  from general have "\<forall>s1 txId. deductCredits ?s20 ''user'' 10 ''crawl'' 2 = Inr (s1, txId) \<longrightarrow>
        getBalance s1 ''user'' = getBalance ?s20 ''user'' - 10 \<and> 0 \<le> getBalance s1 ''user''"
    by blast
  with d have sd: "getBalance (fst (deduct_pipeline ?s20 ''user'' 10 ''crawl'' 2)) ''user'' = 10"
    by (cases "deduct_pipeline ?s20 ''user'' 10 ''crawl'' 2") (simp add: b)
  from general have "\<forall>s1. reserveCredits ?s20 ''user'' 10 ''op1'' 2 = Inr s1 \<longrightarrow>
        getBalance s1 ''user'' = getBalance ?s20 ''user'' - 10 \<and> 0 \<le> getBalance s1 ''user''"
    by blast
  with r have sr: "getBalance (reserve_pipeline ?s20 ''user'' 10 ''op1'' 2) ''user'' = 10"
    by (simp add: b)
  from stale have st: "snd (snd (step ?s5 (DeductReq ''user'' 10 ''crawl'', ReadBalance 20) 2)) = Returned"
    "getBalance (fst (step ?s5 (DeductReq ''user'' 10 ''crawl'', ReadBalance 20) 2)) ''user'' = - 5"
    by (simp_all add: b)
  from low thrown high st d sd r sr show ?thesis by simp
qed

subsection \<open>Keys with expiry\<close>

lemma at_time_cases:
  "at_time t k = absent \<or> (at_time t k = k \<and> (\<forall>e. expires_at k = Some e \<longrightarrow> t < e))"
  by (auto simp add: at_time_def split: option.splits)

lemma at_time_absent: "at_time t absent = absent"
  by (simp add: at_time_def absent_def)

lemma at_time_idem: "at_time t (at_time t k) = at_time t k"
  using at_time_cases [of t k] by (auto simp add: at_time_absent)

lemma at_time_members_update:
  "at_time t ((at_time t k)\<lparr>members := ms\<rparr>) = (at_time t k)\<lparr>members := ms\<rparr> \<or>
   (at_time t ((at_time t k)\<lparr>members := ms\<rparr>) = absent \<and> ms = [])"
  using at_time_cases [of t k]
  by (auto simp add: at_time_def absent_def split: option.splits)

lemma live_absent: "live absent t = []"
  by (simp add: live_def at_time_absent) (simp add: absent_def)

lemma live_members_update: "live ((at_time t k)\<lparr>members := ms\<rparr>) t = ms"
  using at_time_members_update [where t = t and k = k and ms = ms]
  by (auto simp add: live_def absent_def)

lemma live_drop_if_empty: "live (drop_if_empty k) t = live k t"
proof (cases "members k = []")
  case True
  then have "live k t = []"
    using at_time_cases [of t k] by (auto simp add: live_def absent_def)
  with True show ?thesis by (simp add: drop_if_empty_def live_absent)
next
  case False
  then show ?thesis by (simp add: drop_if_empty_def)
qed

lemma live_zremrangebyscore:
  "live (zremrangebyscore k lo hi t) t
     = filter (\<lambda>(m, sc). \<not> (lo \<le> sc \<and> sc \<le> hi)) (live k t)"
  by (simp add: zremrangebyscore_def Let_def live_drop_if_empty live_members_update)
    (simp add: live_def)

lemma live_srem: "live (srem k m t) t = removeAll m (live k t)"
  by (simp add: srem_def Let_def live_drop_if_empty live_members_update)
    (simp add: live_def)

text \<open>
  The lists stand for sets: no command makes a member stand twice, so the length the
  cardinality commands return is the number of members.
\<close>

lemma zupsert_members: "fst ` set (zupsert m sc zs) = insert m (fst ` set zs)"
proof (induction zs)
  case Nil
  then show ?case by simp
next
  case (Cons z zs)
  obtain m' sc' where z: "z = (m', sc')" by (cases z)
  show ?case
  proof (cases "m' = m")
    case True
    with z show ?thesis by simp
  next
    case False
    with z Cons.IH show ?thesis by (simp add: insert_commute)
  qed
qed

lemma zupsert_distinct: "distinct (map fst zs) \<Longrightarrow> distinct (map fst (zupsert m sc zs))"
proof (induction zs)
  case Nil
  then show ?case by simp
next
  case (Cons z zs)
  obtain m' sc' where z: "z = (m', sc')" by (cases z)
  show ?case
  proof (cases "m' = m")
    case True
    with Cons.prems z show ?thesis by simp
  next
    case False
    from Cons have "distinct (map fst (zupsert m sc zs))" by simp
    moreover from Cons.prems z False have "m' \<notin> fst ` set (zupsert m sc zs)"
      by (simp add: zupsert_members)
    ultimately show ?thesis using z False by simp
  qed
qed

lemma zadd_command_distinct:
  "distinct (map fst (members k)) \<Longrightarrow> distinct (map fst (members (zadd_command k sc m t)))"
  by (auto simp add: zadd_command_def at_time_def absent_def Let_def zupsert_distinct
      split: option.splits)

lemma zremrangebyscore_distinct:
  "distinct (map fst (members k)) \<Longrightarrow> distinct (map fst (members (zremrangebyscore k lo hi t)))"
  by (auto simp add: zremrangebyscore_def at_time_def absent_def drop_if_empty_def Let_def
      distinct_map_filter split: option.splits)

lemma sadd_distinct: "distinct (members k) \<Longrightarrow> distinct (members (sadd k m t))"
  by (auto simp add: sadd_def at_time_def absent_def Let_def split: option.splits)

lemma srem_distinct: "distinct (members k) \<Longrightarrow> distinct (members (srem k m t))"
  by (auto simp add: srem_def at_time_def absent_def drop_if_empty_def Let_def
      distinct_removeAll split: option.splits)

lemma expire_members_distinct: "distinct (members k) \<Longrightarrow> distinct (members (expire k ttl t))"
  by (auto simp add: expire_def at_time_def absent_def Let_def split: option.splits)

subsection \<open>Admission\<close>

lemma isAllowed_store:
  "fst (isAllowed cfg s u d t) =
     s\<lparr>user_key := (user_key s)(u := zremrangebyscore (user_key s u) 0 (t - user_window cfg) t),
       domain_key := (domain_key s)(d := zremrangebyscore (domain_key s d) 0 (t - domain_window cfg) t)\<rparr>"
  by (simp add: isAllowed_def Let_def)

lemma isAllowed_verdict:
  "snd (isAllowed cfg s u d t) =
     (if user_requests cfg \<le> int (length (within_window t (user_window cfg) (live (user_key s u) t)))
        then Inl (RateLimitExceeded UserScope)
      else if domain_requests cfg
                \<le> int (length (within_window t (domain_window cfg) (live (domain_key s d) t)))
        then Inl (RateLimitExceeded DomainScope)
      else if domain_concurrent cfg \<le> int (length (live (concurrent_key s d) t))
        then Inl (ConcurrencyLimitExceeded d)
      else Inr True)"
proof -
  have u: "zcard (zremrangebyscore (user_key s u) 0 (t - user_window cfg) t) t
      = int (length (within_window t (user_window cfg) (live (user_key s u) t)))"
    using live_zremrangebyscore [of "user_key s u" 0 "t - user_window cfg" t]
    by (simp add: zcard_def within_window_def live_def)
  have d: "zcard (zremrangebyscore (domain_key s d) 0 (t - domain_window cfg) t) t
      = int (length (within_window t (domain_window cfg) (live (domain_key s d) t)))"
    using live_zremrangebyscore [of "domain_key s d" 0 "t - domain_window cfg" t]
    by (simp add: zcard_def within_window_def live_def)
  have c: "scard (concurrent_key s d) t = int (length (live (concurrent_key s d) t))"
    by (simp add: scard_def live_def)
  show ?thesis
    by (simp add: isAllowed_def Let_def u d c)
qed

lemma trackRequest_throws: "trackRequest cfg s u d t r = (s, Inl ClientTypeError)"
  by (simp add: trackRequest_def Let_def)

lemma admit_unfold:
  "admit cfg s u d t r =
     (fst (isAllowed cfg s u d t),
      case snd (isAllowed cfg s u d t) of Inl e \<Rightarrow> Inl e | Inr a \<Rightarrow> Inl ClientTypeError)"
proof (cases "isAllowed cfg s u d t")
  case (Pair s1 verdict)
  then show ?thesis
    by (cases verdict) (simp_all add: admit_def trackRequest_throws)
qed

lemma zremrangebyscore_absent: "zremrangebyscore absent lo hi t = absent"
  by (simp add: zremrangebyscore_def at_time_absent drop_if_empty_def Let_def)
    (simp add: absent_def)

lemma admit_empty:
  "admit default_limits empty_limiter u d t r = (empty_limiter, Inl ClientTypeError)"
proof -
  have store: "fst (isAllowed default_limits empty_limiter u d t) = empty_limiter"
    by (simp add: isAllowed_store empty_limiter_def zremrangebyscore_absent fun_eq_iff)
  have verdict: "snd (isAllowed default_limits empty_limiter u d t) = Inr True"
    by (simp add: isAllowed_verdict empty_limiter_def live_absent within_window_def
        default_limits_def)
  show ?thesis
    by (simp add: admit_unfold store verdict)
qed

text \<open>
  Claim C6 fails in the code at its last step. Admission purges the two windows and makes
  the three checks in the order the claim gives; a failed check leaves the purged windows
  and an untouched concurrency set. When the three checks pass, \<open>trackRequest\<close> builds
  its pipeline, and \<^verbatim>\<open>pipeline.zadd(userKey, now, requestId)\<close> throws the
  \<^verbatim>\<open>TypeError\<close> of the client: nothing is entered into a window or into the
  concurrency set, no expiry is set, and no request id is returned. So no admission ends
  with a request id, whatever the store holds. On the store with no keys, with the limits
  of the constructor, the admission of the user \<^verbatim>\<open>'user'\<close> for \<^verbatim>\<open>'example.com'\<close> at the
  second 1000 ends with the \<^verbatim>\<open>TypeError\<close> and leaves the store without keys.
\<close>

theorem C6_admit_never_tracks:
  "trackRequest cfg s userId domain now random = (s, Inl ClientTypeError)
   \<and> snd (admit cfg s userId domain now random) =
       (if user_requests cfg
             \<le> int (length (within_window now (user_window cfg) (live (user_key s userId) now)))
          then Inl (RateLimitExceeded UserScope)
        else if domain_requests cfg
               \<le> int (length (within_window now (domain_window cfg) (live (domain_key s domain) now)))
          then Inl (RateLimitExceeded DomainScope)
        else if domain_concurrent cfg \<le> int (length (live (concurrent_key s domain) now))
          then Inl (ConcurrencyLimitExceeded domain)
        else Inl ClientTypeError)
   \<and> live (user_key (fst (admit cfg s userId domain now random)) userId) now
       = within_window now (user_window cfg) (live (user_key s userId) now)
   \<and> live (domain_key (fst (admit cfg s userId domain now random)) domain) now
       = within_window now (domain_window cfg) (live (domain_key s domain) now)
   \<and> concurrent_key (fst (admit cfg s userId domain now random)) = concurrent_key s
   \<and> admit default_limits empty_limiter ''user'' ''example.com'' 1000 ''0.1''
       = (empty_limiter, Inl ClientTypeError)"
proof -
  have result: "snd (admit cfg s userId domain now random) =
       (if user_requests cfg
             \<le> int (length (within_window now (user_window cfg) (live (user_key s userId) now)))
          then Inl (RateLimitExceeded UserScope)
        else if domain_requests cfg
               \<le> int (length (within_window now (domain_window cfg) (live (domain_key s domain) now)))
          then Inl (RateLimitExceeded DomainScope)
        else if domain_concurrent cfg \<le> int (length (live (concurrent_key s domain) now))
          then Inl (ConcurrencyLimitExceeded domain)
        else Inl ClientTypeError)"
    by (simp add: admit_unfold isAllowed_verdict)
  have purged_u: "live (user_key (fst (admit cfg s userId domain now random)) userId) now
       = within_window now (user_window cfg) (live (user_key s userId) now)"
    by (simp add: admit_unfold isAllowed_store live_zremrangebyscore within_window_def)
  have purged_d: "live (domain_key (fst (admit cfg s userId domain now random)) domain) now
       = within_window now (domain_window cfg) (live (domain_key s domain) now)"
    by (simp add: admit_unfold isAllowed_store live_zremrangebyscore within_window_def)
  have conc: "concurrent_key (fst (admit cfg s userId domain now random)) = concurrent_key s"
    by (simp add: admit_unfold isAllowed_store)
  from trackRequest_throws result purged_u purged_d conc admit_empty show ?thesis
    by (simp only: simp_thms)
qed

text \<open>
  Claim C7 fails in the code at its scenario. \<open>completeRequest\<close> does what the claim
  says: it removes the request id from the concurrency set of the domain and changes
  nothing else, neither a user window nor a domain window nor the concurrency set of
  another domain. But no admission takes a slot: with the limits of the constructor
  (concurrency cap 3), on the store with no keys, each of three admissions for a domain
  ends with the \<^verbatim>\<open>TypeError\<close> that \<^verbatim>\<open>pipeline.zadd\<close> throws in \<open>trackRequest\<close>, where
  the claim has them succeed; the fourth ends the same way, not with
  \<open>ConcurrencyLimitExceeded\<close>, and the store is without keys throughout.
\<close>

theorem C7_complete_and_the_cap:
  "user_key (completeRequest s domain requestId clock) = user_key s
   \<and> domain_key (completeRequest s domain requestId clock) = domain_key s
   \<and> (\<forall>other. other \<noteq> domain \<longrightarrow>
        concurrent_key (completeRequest s domain requestId clock) other = concurrent_key s other)
   \<and> live (concurrent_key (completeRequest s domain requestId clock) domain) clock
       = removeAll requestId (live (concurrent_key s domain) clock)
   \<and> (case admit default_limits empty_limiter ''user'' ''example.com'' 1000 ''0.1'' of (s1, a1) \<Rightarrow>
       case admit default_limits s1 ''user'' ''example.com'' 1001 ''0.2'' of (s2, a2) \<Rightarrow>
       case admit default_limits s2 ''user'' ''example.com'' 1002 ''0.3'' of (s3, a3) \<Rightarrow>
       case admit default_limits s3 ''user'' ''example.com'' 1003 ''0.4'' of (s4, a4) \<Rightarrow>
         a1 = Inl ClientTypeError \<and> a2 = Inl ClientTypeError \<and> a3 = Inl ClientTypeError
         \<and> a4 = Inl ClientTypeError \<and> s4 = empty_limiter)"
proof -
  have frame: "user_key (completeRequest s domain requestId clock) = user_key s"
    "domain_key (completeRequest s domain requestId clock) = domain_key s"
    "\<forall>other. other \<noteq> domain \<longrightarrow>
        concurrent_key (completeRequest s domain requestId clock) other = concurrent_key s other"
    by (simp_all add: completeRequest_def)
  have removed: "live (concurrent_key (completeRequest s domain requestId clock) domain) clock
       = removeAll requestId (live (concurrent_key s domain) clock)"
    by (simp add: completeRequest_def live_srem)
  have scenario:
    "case admit default_limits empty_limiter ''user'' ''example.com'' 1000 ''0.1'' of (s1, a1) \<Rightarrow>
       case admit default_limits s1 ''user'' ''example.com'' 1001 ''0.2'' of (s2, a2) \<Rightarrow>
       case admit default_limits s2 ''user'' ''example.com'' 1002 ''0.3'' of (s3, a3) \<Rightarrow>
       case admit default_limits s3 ''user'' ''example.com'' 1003 ''0.4'' of (s4, a4) \<Rightarrow>
         a1 = Inl ClientTypeError \<and> a2 = Inl ClientTypeError \<and> a3 = Inl ClientTypeError
         \<and> a4 = Inl ClientTypeError \<and> s4 = empty_limiter"
    by (simp add: admit_empty)
  from frame removed scenario show ?thesis
    by (simp only: simp_thms)
qed

theorem C7_complete_and_the_cap_witness:
  "''other.org'' \<noteq> ''example.com''
   \<and> concurrent_key
        (completeRequest
           (empty_limiter\<lparr>concurrent_key := (\<lambda>_. absent)
              (''example.com'' := \<lparr>members = [''r1'', ''r2''], expires_at = Some 1300\<rparr>,
               ''other.org'' := \<lparr>members = [''r9''], expires_at = Some 1300\<rparr>)\<rparr>)
           ''example.com'' ''r1'' 1004) ''other.org''
      = \<lparr>members = [''r9''], expires_at = Some 1300\<rparr>
   \<and> live (concurrent_key
        (completeRequest
           (empty_limiter\<lparr>concurrent_key := (\<lambda>_. absent)
              (''example.com'' := \<lparr>members = [''r1'', ''r2''], expires_at = Some 1300\<rparr>,
               ''other.org'' := \<lparr>members = [''r9''], expires_at = Some 1300\<rparr>)\<rparr>)
           ''example.com'' ''r1'' 1004) ''example.com'') 1004
      = [''r2'']"
proof -
  let ?s = "empty_limiter\<lparr>concurrent_key := (\<lambda>_. absent)
              (''example.com'' := \<lparr>members = [''r1'', ''r2''], expires_at = Some 1300\<rparr>,
               ''other.org'' := \<lparr>members = [''r9''], expires_at = Some 1300\<rparr>)\<rparr>"
  have names: "''other.org'' \<noteq> ''example.com''" by simp
  note general = C7_complete_and_the_cap [where s = ?s and domain = "''example.com''"
      and requestId = "''r1''" and clock = 1004]
  from general [THEN conjunct2, THEN conjunct2, THEN conjunct1, THEN spec, THEN mp, OF names]
  have other: "concurrent_key (completeRequest ?s ''example.com'' ''r1'' 1004) ''other.org''
      = \<lparr>members = [''r9''], expires_at = Some 1300\<rparr>"
    by simp
  from general [THEN conjunct2, THEN conjunct2, THEN conjunct2, THEN conjunct1]
  have removed: "live (concurrent_key (completeRequest ?s ''example.com'' ''r1'' 1004) ''example.com'')
      1004 = [''r2'']"
    by (simp add: live_def at_time_def)
  from names other removed show ?thesis by (simp only: simp_thms)
qed

end
